theory Spec2Isabelle
  imports Main "HOL-Library.Word"
begin

unbundle bit_operations_syntax

section \<open>Machine words and the DECIMAL value type\<close>

text \<open>
  The arithmetic core of System.Decimal in \<^verbatim>\<open>decimal_calc.cpp\<close>,
  \<^verbatim>\<open>decimal_calc.inl\<close> and \<^verbatim>\<open>decimal.cpp\<close>, in the configuration
  the 64-bit code is written for (\<^verbatim>\<open>_TARGET_64BIT\<close>, \<^verbatim>\<open>_TARGET_AMD64_\<close>,
  \<^verbatim>\<open>HAS_DIVMOD128BY64\<close>): add-with-carry, subtract-with-borrow and the wide
  multiply are the processor's, the portable variants of \<^verbatim>\<open>DecMul10\<close> and
  \<^verbatim>\<open>DecAddInt32\<close> are the ones outside \<^verbatim>\<open>_TARGET_X86_\<close>.

  C's \<^verbatim>\<open>uint8_t\<close>, \<^verbatim>\<open>uint16_t\<close>, \<^verbatim>\<open>uint32_t\<close> and
  \<^verbatim>\<open>uint64_t\<close> are words of that width, so every operation wraps as the
  hardware does. The \<^verbatim>\<open>int\<close> variables of the code (scales, array indices)
  stay far inside 32 bits and are HOL integers. \<^verbatim>\<open>carry_t\<close> holds a carry
  flag and is a \<^typ>\<open>bool\<close>.
\<close>

type_synonym u8 = "8 word"
type_synonym u16 = "16 word"
type_synonym u32 = "32 word"
type_synonym u64 = "64 word"

text \<open>
  \<^verbatim>\<open>DECIMAL\<close> (declared in the platform headers): a 16-bit reserved word, the
  scale byte and the sign byte (together \<^verbatim>\<open>signscale\<close>), the high 32 bits
  of the mantissa and its low 64 bits (\<^verbatim>\<open>Lo64\<close>, the union of
  \<^verbatim>\<open>Lo32\<close> and \<^verbatim>\<open>Mid32\<close>).
\<close>

record DECIMAL =
  wReserved :: u16
  scale :: u8
  sign :: u8
  Hi32 :: u32
  Lo64 :: u64

datatype HRESULT = NOERROR | DISP_E_OVERFLOW | DISP_E_DIVBYZERO

definition DECIMAL_NEG :: u8 where
  "DECIMAL_NEG = 0x80"

definition DEC_SCALE_MAX :: int where
  "DEC_SCALE_MAX = 28"

text \<open>The two halves of a 64-bit value, and the value with one half replaced.\<close>

definition low32 :: "u64 \<Rightarrow> u32" where
  "low32 v = ucast v"

definition hi32 :: "u64 \<Rightarrow> u32" where
  "hi32 v = ucast (drop_bit 32 v)"

definition make64 :: "u32 \<Rightarrow> u32 \<Rightarrow> u64" where
  "make64 h l = push_bit 32 (ucast h) OR ucast l"

definition set_low32 :: "u64 \<Rightarrow> u32 \<Rightarrow> u64" where
  "set_low32 v l = make64 (hi32 v) l"

definition set_hi32 :: "u64 \<Rightarrow> u32 \<Rightarrow> u64" where
  "set_hi32 v h = make64 h (low32 v)"

definition low32_dec :: "DECIMAL \<Rightarrow> u32" where
  "low32_dec d = low32 (Lo64 d)"

definition mid32_dec :: "DECIMAL \<Rightarrow> u32" where
  "mid32_dec d = hi32 (Lo64 d)"

text \<open>The 96-bit mantissa \<^verbatim>\<open>(high << 64) | (mid << 32) | low\<close> as a number.\<close>

definition mantissa :: "DECIMAL \<Rightarrow> nat" where
  "mantissa d = unat (Hi32 d) * 2 ^ 64 + unat (Lo64 d)"

definition FitsIn32Bit :: "u64 \<Rightarrow> bool" where
  "FitsIn32Bit v = (v \<le> 0xFFFFFFFF)"

definition DECIMAL_SETZERO :: "DECIMAL \<Rightarrow> DECIMAL" where
  "DECIMAL_SETZERO d = \<lparr>wReserved = 0, scale = 0, sign = 0, Hi32 = 0, Lo64 = 0\<rparr>"

section \<open>Intrinsics and simple helpers\<close>

text \<open>
  Each helper returns what the C function returns together with what it stores through
  its pointer arguments: carry first for the additions, the low product first for the
  multiplications, the quotient first for the divisions.
\<close>

definition AddCarry32 :: "bool \<Rightarrow> u32 \<Rightarrow> u32 \<Rightarrow> bool \<times> u32" where
  "AddCarry32 carry lhs rhs =
     (let sum = (if carry then 1 else 0) + unat lhs + unat rhs
      in (2 ^ 32 \<le> sum, of_nat sum))"

definition SubBorrow32 :: "bool \<Rightarrow> u32 \<Rightarrow> u32 \<Rightarrow> bool \<times> u32" where
  "SubBorrow32 carry lhs rhs =
     (unat lhs < unat rhs + (if carry then 1 else 0),
      lhs - (rhs + (if carry then 1 else 0)))"

definition AddCarry64 :: "bool \<Rightarrow> u64 \<Rightarrow> u64 \<Rightarrow> bool \<times> u64" where
  "AddCarry64 carry lhs rhs =
     (let sum = (if carry then 1 else 0) + unat lhs + unat rhs
      in (2 ^ 64 \<le> sum, of_nat sum))"

definition SubBorrow64 :: "bool \<Rightarrow> u64 \<Rightarrow> u64 \<Rightarrow> bool \<times> u64" where
  "SubBorrow64 carry lhs rhs =
     (unat lhs < unat rhs + (if carry then 1 else 0),
      lhs - (rhs + (if carry then 1 else 0)))"

definition Mul32By32 :: "u32 \<Rightarrow> u32 \<Rightarrow> u64" where
  "Mul32By32 lhs rhs = ucast lhs * ucast rhs"

definition Mul64By32 :: "u64 \<Rightarrow> u32 \<Rightarrow> u64 \<times> u32" where
  "Mul64By32 lhs rhs =
     (let res = unat lhs * unat rhs in (of_nat res, of_nat (res div 2 ^ 64)))"

definition Mul64By64 :: "u64 \<Rightarrow> u64 \<Rightarrow> u64 \<times> u64" where
  "Mul64By64 lhs rhs =
     (let res = unat lhs * unat rhs in (of_nat res, of_nat (res div 2 ^ 64)))"

definition DivMod32By32 :: "u32 \<Rightarrow> u32 \<Rightarrow> u32 \<times> u32" where
  "DivMod32By32 ulNum ulDen = (ulNum div ulDen, ulNum mod ulDen)"

definition DivMod64By64 :: "u64 \<Rightarrow> u64 \<Rightarrow> u64 \<times> u64" where
  "DivMod64By64 ullNum ullDen = (ullNum div ullDen, ullNum mod ullDen)"

text \<open>
  \<^verbatim>\<open>DivMod64By32(lo, hi, ulDen, &remainder)\<close> divides the 64-bit number
  \<^verbatim>\<open>hi:lo\<close>; the quotient is cut to 32 bits (every caller has
  \<^verbatim>\<open>hi < ulDen\<close>, where nothing is cut).
\<close>

definition DivMod64By32 :: "u32 \<Rightarrow> u32 \<Rightarrow> u32 \<Rightarrow> u32 \<times> u32" where
  "DivMod64By32 lo hi ulDen =
     (let n = make64 hi lo
      in (ucast (n div ucast ulDen), ucast (n mod ucast ulDen)))"

text \<open>
  \<^verbatim>\<open>DivMod128By64(lo, hi, ulDen, &remainder)\<close>, the processor's 128-by-64
  division (used with \<^verbatim>\<open>hi < ulDen\<close>).
\<close>

definition DivMod128By64 :: "u64 \<Rightarrow> u64 \<Rightarrow> u64 \<Rightarrow> u64 \<times> u64" where
  "DivMod128By64 lo hi ulDen =
     (let n = unat hi * 2 ^ 64 + unat lo
      in (of_nat (n div unat ulDen), of_nat (n mod unat ulDen)))"

text \<open>Index of the most significant set bit; \<^verbatim>\<open>found\<close> is false for 0.\<close>

fun msb_index :: "nat \<Rightarrow> nat" where
  "msb_index n = (if n < 2 then 0 else Suc (msb_index (n div 2)))"

declare msb_index.simps [simp del]

definition BitScanMsb32 :: "u32 \<Rightarrow> bool \<times> nat" where
  "BitScanMsb32 Mask = (Mask \<noteq> 0, msb_index (unat Mask))"

definition BitScanMsb64 :: "u64 \<Rightarrow> bool \<times> nat" where
  "BitScanMsb64 Mask = (Mask \<noteq> 0, msb_index (unat Mask))"

text \<open>
  \<^verbatim>\<open>ShiftLeft128\<close> is the platform's 128-bit shift where the headers define it,
  and otherwise the fallback
  \<^verbatim>\<open>(_HighPart << _Shift) | (_LowPart >> (64 - _Shift))\<close>; for a shift of 1 to 63
  both are the definition below. At \<^verbatim>\<open>_Shift = 0\<close>, which
  \<^verbatim>\<open>DecimalDiv\<close> reaches when the top word of the divisor has bit 31 set, the
  fallback evaluates \<^verbatim>\<open>_LowPart >> 64\<close>, which C leaves undefined. The
  definition gives \<^verbatim>\<open>_HighPart\<close> there, the value of the platform's shift; a
  build whose shift instruction takes the count modulo 64 computes
  \<^verbatim>\<open>_HighPart | _LowPart\<close> instead. The properties proved below do not depend on
  the value at 0.
\<close>

definition ShiftLeft128 :: "u64 \<Rightarrow> u64 \<Rightarrow> nat \<Rightarrow> u64" where
  "ShiftLeft128 LowPart HighPart Shift =
     push_bit Shift HighPart OR drop_bit (64 - Shift) LowPart"

section \<open>Constants\<close>

definition rgulPower10_64 :: "u64 list" where
  "rgulPower10_64 =
     [1, 10, 100, 1000, 10000, 100000, 1000000, 10000000, 100000000, 1000000000,
      10000000000, 100000000000, 1000000000000, 10000000000000, 100000000000000,
      1000000000000000, 10000000000000000, 100000000000000000, 1000000000000000000,
      10000000000000000000]"

definition POWER10_MAX64 :: int where
  "POWER10_MAX64 = 19"

definition POWER10_MAX32 :: int where
  "POWER10_MAX32 = 9"

definition POWER10_MAX_VALUE64 :: u64 where
  "POWER10_MAX_VALUE64 = rgulPower10_64 ! 19"

definition POWER10_MAX_VALUE32 :: u32 where
  "POWER10_MAX_VALUE32 = ucast (rgulPower10_64 ! 9)"

definition Add96By64_dec :: "DECIMAL \<Rightarrow> u64 \<Rightarrow> bool \<times> DECIMAL" where
  "Add96By64_dec pDec v =
     (let (carry, lo) = AddCarry64 False (Lo64 pDec) v;
          (carry, hi) = AddCarry32 carry (Hi32 pDec) 0
      in (carry, pDec\<lparr>Lo64 := lo, Hi32 := hi\<rparr>))"

definition Add96By32_u64 :: "u64 list \<Rightarrow> u32 \<Rightarrow> bool \<times> u64 list" where
  "Add96By32_u64 pllVal v =
     (let (carry, lo) = AddCarry64 False (pllVal ! 0) (ucast v);
          pllVal = pllVal[0 := lo];
          (carry, l1) = AddCarry32 carry (low32 (pllVal ! 1)) 0
      in (carry, pllVal[1 := set_low32 (pllVal ! 1) l1]))"

section \<open>ReduceScale and ScaleResult\<close>

definition DivMod64By32InPlace :: "u32 \<Rightarrow> u32 \<Rightarrow> u32 \<Rightarrow> u32 \<times> u32" where
  "DivMod64By32InPlace pLow hi ulDen = DivMod64By32 pLow hi ulDen"

text \<open>The \<^verbatim>\<open>while (iCur >= 0)\<close> loop of \<^verbatim>\<open>ReduceScale\<close>.\<close>

function ReduceScale_loop :: "u64 list \<Rightarrow> int \<Rightarrow> u32 \<Rightarrow> u32 \<Rightarrow> u64 list \<times> u32" where
  "ReduceScale_loop rgullRes iCur ulRemainder ulDen =
     (if 0 \<le> iCur then
        (let (q, ulRemainder) = DivMod64By32InPlace (hi32 (rgullRes ! nat iCur)) ulRemainder ulDen;
             rgullRes = rgullRes[nat iCur := set_hi32 (rgullRes ! nat iCur) q];
             (q, ulRemainder) = DivMod64By32InPlace (low32 (rgullRes ! nat iCur)) ulRemainder ulDen;
             rgullRes = rgullRes[nat iCur := set_low32 (rgullRes ! nat iCur) q]
         in ReduceScale_loop rgullRes (iCur - 1) ulRemainder ulDen)
      else (rgullRes, ulRemainder))"
  by pat_completeness auto
termination
  by (relation "measure (\<lambda>(r, iCur, m, d). nat (iCur + 1))") auto

declare ReduceScale_loop.simps [simp del]

text \<open>
  \<^verbatim>\<open>ReduceScale\<close> returns the remainder; the buffer, \<^verbatim>\<open>iHiRes\<close>,
  \<^verbatim>\<open>ulDen\<close> and \<^verbatim>\<open>iNewScale\<close> are its reference parameters and are
  returned with it, in this order.
\<close>

definition ReduceScale :: "u64 list \<Rightarrow> int \<Rightarrow> int \<Rightarrow> u32 \<times> u64 list \<times> int \<times> u32 \<times> int" where
  "ReduceScale rgullRes iHiRes iNewScale =
     (let iCur = iHiRes;
          ulDen = (if iNewScale < POWER10_MAX32 then ucast (rgulPower10_64 ! nat iNewScale)
                   else POWER10_MAX_VALUE32);
          iNewScale = iNewScale - POWER10_MAX32
      in if hi32 (rgullRes ! nat iCur) < ulDen then
           (if hi32 (rgullRes ! nat iCur) = 0 \<and> low32 (rgullRes ! nat iCur) < ulDen then
              (let ulRemainder = low32 (rgullRes ! nat iCur);
                   rgullRes = rgullRes[nat iCur := set_low32 (rgullRes ! nat iCur) 0];
                   iHiRes = (if 0 < iHiRes then iHiRes - 1 else iHiRes);
                   (rgullRes, ulRemainder) = ReduceScale_loop rgullRes (iCur - 1) ulRemainder ulDen
               in (ulRemainder, rgullRes, iHiRes, ulDen, iNewScale))
            else
              (let (q, ulRemainder) =
                     DivMod64By32InPlace (low32 (rgullRes ! nat iCur)) (hi32 (rgullRes ! nat iCur)) ulDen;
                   rgullRes = rgullRes[nat iCur := set_low32 (rgullRes ! nat iCur) q];
                   rgullRes = rgullRes[nat iCur := set_hi32 (rgullRes ! nat iCur) 0];
                   (rgullRes, ulRemainder) = ReduceScale_loop rgullRes (iCur - 1) ulRemainder ulDen
               in (ulRemainder, rgullRes, iHiRes, ulDen, iNewScale)))
         else
           (let (rgullRes, ulRemainder) = ReduceScale_loop rgullRes iCur 0 ulDen
            in (ulRemainder, rgullRes, iHiRes, ulDen, iNewScale)))"

text \<open>
  The rounding test of \<^verbatim>\<open>ScaleResult\<close>, applied to the halved divisor
  \<^verbatim>\<open>ulPwr >> 1\<close>: the remainder is above one half, or it is one half and the
  result is odd or the sticky bits are set.
\<close>

definition ScaleResult_roundup :: "u32 \<Rightarrow> u32 \<Rightarrow> u64 list \<Rightarrow> u32 \<Rightarrow> bool" where
  "ScaleResult_roundup ulPwr ulRemainder rgullRes ulSticky =
     (ulPwr < ulRemainder \<or>
      (ulRemainder = ulPwr \<and> ((low32 (rgullRes ! 0) AND 1) OR ulSticky) \<noteq> 0))"

text \<open>
  The \<^verbatim>\<open>for (;;)\<close> loop of \<^verbatim>\<open>ScaleResult\<close>, one call per iteration.
  It returns the new scale (-1 for overflow) and the buffer. The loop has no bound of
  its own in the code, so not returning is the value \<open>None\<close>.
\<close>

partial_function (option) ScaleResult_loop ::
  "u64 list \<Rightarrow> int \<Rightarrow> int \<Rightarrow> int \<Rightarrow> u32 \<Rightarrow> u32 \<Rightarrow> (int \<times> u64 list) option" where
  "ScaleResult_loop rgullRes iHiRes iScale iNewScale ulSticky ulRemainder =
     (let ulSticky = ulSticky OR ulRemainder;
          (ulRemainder, rgullRes, iHiRes, ulPwr, iNewScale) = ReduceScale rgullRes iHiRes iNewScale
      in if 0 < iNewScale then
           ScaleResult_loop rgullRes iHiRes iScale iNewScale ulSticky ulRemainder
         else if 1 < iHiRes \<or> hi32 (rgullRes ! 1) \<noteq> 0 then
           ScaleResult_loop rgullRes iHiRes (iScale - 1) 1 ulSticky ulRemainder
         else
           (let ulPwr = drop_bit 1 ulPwr
            in if ScaleResult_roundup ulPwr ulRemainder rgullRes ulSticky then
                 (let (carry, rgullRes) = Add96By32_u64 rgullRes 1
                  in if carry then
                       ScaleResult_loop (rgullRes[1 := set_hi32 (rgullRes ! 1) 1]) iHiRes
                         (iScale - 1) 1 0 0
                     else if iScale < 0 then Some (- 1, rgullRes)
                     else Some (iScale, rgullRes))
               else if iScale < 0 then Some (- 1, rgullRes)
               else Some (iScale, rgullRes)))"

text \<open>
  \<^verbatim>\<open>ScaleResult\<close> from "Make sure we scale by enough to bring the current scale
  factor into valid range" on, with the estimate \<^verbatim>\<open>iNewScale\<close> in hand.
\<close>

declare ScaleResult_loop.simps [code]

definition ScaleResult_scale :: "u64 list \<Rightarrow> int \<Rightarrow> int \<Rightarrow> int \<Rightarrow> (int \<times> u64 list) option" where
  "ScaleResult_scale rgullRes iHiRes iScale iNewScale =
     (let iNewScale = (if iNewScale < iScale - DEC_SCALE_MAX then iScale - DEC_SCALE_MAX
                       else iNewScale)
      in if iNewScale \<noteq> 0 then
           ScaleResult_loop rgullRes iHiRes (iScale - iNewScale) iNewScale 0 0
         else Some (iScale, rgullRes))"

text \<open>\<^verbatim>\<open>(iNewScale * 77) >> 8\<close> is taken of a non-negative number only.\<close>

definition ScaleResult :: "u64 list \<Rightarrow> int \<Rightarrow> int \<Rightarrow> (int \<times> u64 list) option" where
  "ScaleResult rgullRes iHiRes iScale =
     (let (found, ulMsb) = BitScanMsb64 (rgullRes ! nat iHiRes);
          iNewScale = iHiRes * 64 + int ulMsb - 96
      in if 0 \<le> iNewScale then
           (let iNewScale = (iNewScale * 77) div 256 + 1
            in if iScale < iNewScale then Some (- 1, rgullRes)
               else ScaleResult_scale rgullRes iHiRes iScale iNewScale)
         else ScaleResult_scale rgullRes iHiRes iScale 0)"

section \<open>DecimalMul\<close>

text \<open>
  The operations write their result through \<^verbatim>\<open>pRes\<close>: the model takes the
  slot as it is before the call and returns the \<^verbatim>\<open>HRESULT\<close> with the slot as
  it is at the return. A field the code does not write keeps what the slot held.
\<close>

text \<open>The \<^verbatim>\<open>while (rgulProd[iHiProd] == 0)\<close> scan; -1 when every word is zero.\<close>

function Mul_iHiProd :: "u64 list \<Rightarrow> int \<Rightarrow> int" where
  "Mul_iHiProd rgulProd iHiProd =
     (if rgulProd ! nat iHiProd = 0 then
        (if iHiProd - 1 < 0 then iHiProd - 1 else Mul_iHiProd rgulProd (iHiProd - 1))
      else iHiProd)"
  by pat_completeness auto
termination
  by (relation "measure (\<lambda>(r, i). nat i)") auto

declare Mul_iHiProd.simps [simp del]

definition Mul_finish :: "DECIMAL \<Rightarrow> DECIMAL \<Rightarrow> DECIMAL \<Rightarrow> int \<Rightarrow> HRESULT \<times> DECIMAL" where
  "Mul_finish pdecL pdecR pRes iScale =
     (NOERROR, pRes\<lparr>sign := sign pdecL XOR sign pdecR, scale := of_int iScale\<rparr>)"

text \<open>
  The product of two operands of which one at least has bits above the low 64: the three
  partial products summed into \<^verbatim>\<open>rgulProd[0..2]\<close>.
\<close>

definition Mul_rgulProd :: "DECIMAL \<Rightarrow> DECIMAL \<Rightarrow> u64 list" where
  "Mul_rgulProd pdecL pdecR =
     (let (p0, tmpSum) = Mul64By64 (Lo64 pdecL) (Lo64 pdecR);
          p2 = Mul32By32 (Hi32 pdecL) (Hi32 pdecR);
          (lo, tmpHi1) = Mul64By32 (Lo64 pdecL) (Hi32 pdecR);
          (carry1, tmpSum) = AddCarry64 False lo tmpSum;
          (c, p2) = AddCarry64 carry1 (ucast tmpHi1) p2;
          (tmpLo2, tmpHi2) = Mul64By32 (Lo64 pdecR) (Hi32 pdecL);
          (carry2, tmpSum) = AddCarry64 False tmpLo2 tmpSum;
          (c, p2) = AddCarry64 carry2 (ucast tmpHi2) p2
      in [p0, tmpSum, p2])"

definition DecimalMul :: "DECIMAL \<Rightarrow> DECIMAL \<Rightarrow> DECIMAL \<Rightarrow> (HRESULT \<times> DECIMAL) option" where
  "DecimalMul pdecL pdecR pRes =
     (let iScale = uint (scale pdecL) + uint (scale pdecR)
      in if (Hi32 pdecL OR Hi32 pdecR) = 0 then
           (let (lo, hi) = Mul64By64 (Lo64 pdecL) (Lo64 pdecR)
            in if hi = 0 then
                 (if DEC_SCALE_MAX < iScale then
                    (let iScale = iScale - DEC_SCALE_MAX
                     in if 19 < iScale then Some (NOERROR, DECIMAL_SETZERO pRes)
                        else
                          (let ullPwr = rgulPower10_64 ! nat iScale;
                               (lo, ullRem) = DivMod64By64 lo ullPwr;
                               ullPwr = drop_bit 1 ullPwr;
                               lo = (if ullPwr < ullRem \<or> (ullRem = ullPwr \<and> lo AND 1 \<noteq> 0)
                                     then lo + 1 else lo)
                           in Some (Mul_finish pdecL pdecR (pRes\<lparr>Hi32 := 0, Lo64 := lo\<rparr>)
                                      DEC_SCALE_MAX)))
                  else Some (Mul_finish pdecL pdecR (pRes\<lparr>Hi32 := 0, Lo64 := lo\<rparr>) iScale))
               else
                 (case ScaleResult [lo, hi] 1 iScale of
                    None \<Rightarrow> None
                  | Some (iScale, tmpSpace) \<Rightarrow>
                      if iScale = - 1 then Some (DISP_E_OVERFLOW, pRes)
                      else Some (Mul_finish pdecL pdecR
                                   (pRes\<lparr>Lo64 := tmpSpace ! 0, Hi32 := ucast (tmpSpace ! 1)\<rparr>)
                                   iScale)))
         else
           (let rgulProd = Mul_rgulProd pdecL pdecR;
                iHiProd = Mul_iHiProd rgulProd 2
            in if iHiProd < 0 then Some (NOERROR, DECIMAL_SETZERO pRes)
               else
                 (case ScaleResult rgulProd iHiProd iScale of
                    None \<Rightarrow> None
                  | Some (iScale, rgulProd) \<Rightarrow>
                      if iScale = - 1 then Some (DISP_E_OVERFLOW, pRes)
                      else Some (Mul_finish pdecL pdecR
                                   (pRes\<lparr>Lo64 := rgulProd ! 0, Hi32 := ucast (rgulProd ! 1)\<rparr>)
                                   iScale))))"

section \<open>DecimalAddSub\<close>

text \<open>The code after the label \<^verbatim>\<open>SignFlip\<close>: negate the 96-bit result, toggle the sign.\<close>

definition SignFlip :: "DECIMAL \<Rightarrow> DECIMAL" where
  "SignFlip pdecRes =
     (let pdecRes = pdecRes\<lparr>Lo64 := - Lo64 pdecRes\<rparr>;
          pdecRes = pdecRes\<lparr>Hi32 := NOT (Hi32 pdecRes)\<rparr>;
          pdecRes = (if Lo64 pdecRes = 0 then pdecRes\<lparr>Hi32 := Hi32 pdecRes + 1\<rparr> else pdecRes)
      in pdecRes\<lparr>sign := sign pdecRes XOR DECIMAL_NEG\<rparr>)"

text \<open>
  The code after the label \<^verbatim>\<open>AlignedAdd\<close>, up to the end of the equal-scale
  branch. It reads \<^verbatim>\<open>low64\<close> and \<^verbatim>\<open>hi32\<close> of \<^verbatim>\<open>*pdecL\<close> only.
\<close>

definition AlignedAdd :: "DECIMAL \<Rightarrow> DECIMAL \<Rightarrow> DECIMAL \<Rightarrow> u8 \<Rightarrow> HRESULT \<times> DECIMAL" where
  "AlignedAdd pdecL pdecR pdecRes bSign =
     (if bSign \<noteq> 0 then
        (let (carry, lo) = SubBorrow64 False (Lo64 pdecL) (Lo64 pdecR);
             pdecRes = pdecRes\<lparr>Lo64 := lo\<rparr>;
             (carry, hi) = SubBorrow32 carry (Hi32 pdecL) (Hi32 pdecR);
             pdecRes = pdecRes\<lparr>Hi32 := hi\<rparr>
         in if carry then (NOERROR, SignFlip pdecRes) else (NOERROR, pdecRes))
      else
        (let (carry, lo) = AddCarry64 False (Lo64 pdecL) (Lo64 pdecR);
             pdecRes = pdecRes\<lparr>Lo64 := lo\<rparr>;
             (carry, hi) = AddCarry32 carry (Hi32 pdecL) (Hi32 pdecR);
             pdecRes = pdecRes\<lparr>Hi32 := hi\<rparr>
         in if carry then
              (if scale pdecRes = 0 then (DISP_E_OVERFLOW, pdecRes)
               else
                 (let pdecRes = pdecRes\<lparr>scale := scale pdecRes - 1\<rparr>;
                      (q, remainder) = DivMod64By32InPlace (Hi32 pdecRes) 1 10;
                      pdecRes = pdecRes\<lparr>Hi32 := q\<rparr>;
                      (q, remainder) = DivMod64By32InPlace (mid32_dec pdecRes) remainder 10;
                      pdecRes = pdecRes\<lparr>Lo64 := set_hi32 (Lo64 pdecRes) q\<rparr>;
                      (q, remainder) = DivMod64By32InPlace (low32_dec pdecRes) remainder 10;
                      pdecRes = pdecRes\<lparr>Lo64 := set_low32 (Lo64 pdecRes) q\<rparr>
                  in if 5 \<le> remainder \<and> (5 < remainder \<or> low32_dec pdecRes AND 1 \<noteq> 0) then
                       (NOERROR, snd (Add96By64_dec pdecRes 1))
                     else (NOERROR, pdecRes)))
            else (NOERROR, pdecRes)))"

text \<open>
  The inner \<^verbatim>\<open>for (iCur = 1; iCur <= iHiProd; iCur++)\<close> of the scaling loop;
  it returns the buffer, \<^verbatim>\<open>mul_carry\<close> and \<^verbatim>\<open>add_carry\<close>.
\<close>

function AddSub_mul_words ::
  "u64 list \<Rightarrow> u64 \<Rightarrow> int \<Rightarrow> int \<Rightarrow> u64 \<Rightarrow> bool \<Rightarrow> u64 list \<times> u64 \<times> bool" where
  "AddSub_mul_words rgullNum ullPwr iCur iHiProd mul_carry add_carry =
     (if iCur \<le> iHiProd then
        (let tmp = mul_carry;
             (product, mul_carry) = Mul64By64 ullPwr (rgullNum ! nat iCur);
             (add_carry, w) = AddCarry64 add_carry tmp product
         in AddSub_mul_words (rgullNum[nat iCur := w]) ullPwr (iCur + 1) iHiProd mul_carry add_carry)
      else (rgullNum, mul_carry, add_carry))"
  by pat_completeness auto
termination
  by (relation "measure (\<lambda>(r, p, iCur, iHiProd, m, a). nat (iHiProd + 1 - iCur))") auto

declare AddSub_mul_words.simps [simp del]

text \<open>
  The scaling loop \<^verbatim>\<open>for (; iScale > 0; iScale -= POWER10_MAX64)\<close>, up to
  \<^verbatim>\<open>10^19\<close> at a time; it returns the buffer and \<^verbatim>\<open>iHiProd\<close>.
\<close>

function AddSub_scale_loop :: "u64 list \<Rightarrow> int \<Rightarrow> int \<Rightarrow> u64 list \<times> int" where
  "AddSub_scale_loop rgullNum iHiProd iScale =
     (if 0 < iScale then
        (let ullPwr = (if POWER10_MAX64 \<le> iScale then POWER10_MAX_VALUE64
                       else rgulPower10_64 ! nat iScale);
             (w, mul_carry) = Mul64By64 ullPwr (rgullNum ! 0);
             rgullNum = rgullNum[0 := w];
             (rgullNum, mul_carry, add_carry) =
               AddSub_mul_words rgullNum ullPwr 1 iHiProd mul_carry False
         in if mul_carry \<noteq> 0 \<or> add_carry then
              AddSub_scale_loop
                (rgullNum[nat (iHiProd + 1) := snd (AddCarry64 add_carry mul_carry 0)])
                (iHiProd + 1) (iScale - POWER10_MAX64)
            else AddSub_scale_loop rgullNum iHiProd (iScale - POWER10_MAX64))
      else (rgullNum, iHiProd))"
  by pat_completeness auto
termination
  by (relation "measure (\<lambda>(r, h, iScale). nat iScale)") (auto simp: POWER10_MAX64_def)

declare AddSub_scale_loop.simps [simp del]

text \<open>
  From "Scaling complete, do the add" to the return: the scaled left operand is in
  \<^verbatim>\<open>rgullNum[0..iHiProd]\<close>. \<open>AddSub_wide_op\<close> is the addition or
  subtraction of the right operand with its carry into \<^verbatim>\<open>rgullNum[2]\<close>; its
  first component says that the code jumps to \<^verbatim>\<open>SignFlip\<close>.
\<close>

definition AddSub_wide_op ::
  "u64 list \<Rightarrow> int \<Rightarrow> DECIMAL \<Rightarrow> DECIMAL \<Rightarrow> u8 \<Rightarrow> bool \<times> u64 list \<times> int \<times> DECIMAL" where
  "AddSub_wide_op rgullNum iHiProd pdecR pdecRes bSign =
     (if bSign \<noteq> 0 then
        (let (carry, lo) = SubBorrow64 False (rgullNum ! 0) (Lo64 pdecR);
             pdecRes = pdecRes\<lparr>Lo64 := lo\<rparr>;
             (carry, w) = SubBorrow64 carry (rgullNum ! 1) (ucast (Hi32 pdecR));
             rgullNum = rgullNum[1 := w];
             pdecRes = pdecRes\<lparr>Hi32 := ucast (rgullNum ! 1)\<rparr>
         in if carry then
              (if iHiProd \<le> 1 then (True, rgullNum, iHiProd, pdecRes)
               else
                 (let rgullNum = rgullNum[2 := rgullNum ! 2 - 1]
                  in (False, rgullNum, if rgullNum ! 2 = 0 then 1 else iHiProd, pdecRes)))
            else (False, rgullNum, iHiProd, pdecRes))
      else
        (let (carry, lo) = AddCarry64 False (rgullNum ! 0) (Lo64 pdecR);
             pdecRes = pdecRes\<lparr>Lo64 := lo\<rparr>;
             (carry, w) = AddCarry64 carry (rgullNum ! 1) (ucast (Hi32 pdecR));
             rgullNum = rgullNum[1 := w];
             pdecRes = pdecRes\<lparr>Hi32 := ucast (rgullNum ! 1)\<rparr>
         in if carry then
              (if iHiProd < 2 then (False, rgullNum[2 := 1], 2, pdecRes)
               else (False, rgullNum[2 := rgullNum ! 2 + 1], iHiProd, pdecRes))
            else (False, rgullNum, iHiProd, pdecRes)))"

definition AddSub_wide ::
  "u64 list \<Rightarrow> int \<Rightarrow> DECIMAL \<Rightarrow> DECIMAL \<Rightarrow> u8 \<Rightarrow> (HRESULT \<times> DECIMAL) option" where
  "AddSub_wide rgullNum iHiProd pdecR pdecRes bSign =
     (let (flip, rgullNum, iHiProd, pdecRes) =
            AddSub_wide_op rgullNum iHiProd pdecR pdecRes bSign
      in if flip then Some (NOERROR, SignFlip pdecRes)
         else if 1 < iHiProd \<or> (iHiProd = 1 \<and> \<not> FitsIn32Bit (rgullNum ! 1)) then
           (let rgullNum = rgullNum[0 := Lo64 pdecRes]
            in case ScaleResult rgullNum iHiProd (uint (scale pdecRes)) of
                 None \<Rightarrow> None
               | Some (iScale, rgullNum) \<Rightarrow>
                   (let pdecRes = pdecRes\<lparr>scale := of_int iScale\<rparr>
                    in if scale pdecRes = of_int (- 1) then Some (DISP_E_OVERFLOW, pdecRes)
                       else Some (NOERROR,
                              pdecRes\<lparr>Lo64 := rgullNum ! 0, Hi32 := ucast (rgullNum ! 1)\<rparr>)))
         else Some (NOERROR, pdecRes))"

text \<open>
  The unequal-scale branch once the operands are in order: \<^verbatim>\<open>*pdecL\<close> is
  multiplied by \<^verbatim>\<open>10^iScale\<close>. \<^verbatim>\<open>rgullNum[2]\<close> is not initialised
  on the path through the scaling loop and is written there before it is read; it
  starts as 0 here. \<^verbatim>\<open>decTmp\<close> is read through \<^verbatim>\<open>low64\<close> and
  \<^verbatim>\<open>hi32\<close> only.
\<close>

definition AddSub_scaled ::
  "DECIMAL \<Rightarrow> DECIMAL \<Rightarrow> DECIMAL \<Rightarrow> u8 \<Rightarrow> int \<Rightarrow> (HRESULT \<times> DECIMAL) option" where
  "AddSub_scaled pdecL pdecR pdecRes bSign iScale =
     (if iScale \<le> POWER10_MAX64 then
        (let ullPwr = rgulPower10_64 ! nat iScale;
             (n0, hi) = Mul64By64 (Lo64 pdecL) ullPwr;
             (n1, n2) = Mul64By64 (ucast (Hi32 pdecL)) ullPwr;
             (carry, n1) = AddCarry64 False n1 hi;
             (c, n2) = AddCarry64 carry n2 0;
             rgullNum = [n0, n1, n2]
         in if rgullNum ! 2 \<noteq> 0 then AddSub_wide rgullNum 2 pdecR pdecRes bSign
            else if FitsIn32Bit (rgullNum ! 1) then
              (let decTmp = pdecL\<lparr>Lo64 := rgullNum ! 0, Hi32 := ucast (rgullNum ! 1)\<rparr>
               in Some (AlignedAdd decTmp pdecR pdecRes bSign))
            else AddSub_wide rgullNum 1 pdecR pdecRes bSign)
      else
        (let rgullNum = [Lo64 pdecL, ucast (Hi32 pdecL), 0]
         in if Hi32 pdecL = 0 \<and> Lo64 pdecL = 0 then
              Some (NOERROR,
                pdecRes\<lparr>Lo64 := Lo64 pdecR, Hi32 := Hi32 pdecR, sign := sign pdecRes XOR bSign\<rparr>)
            else
              (let (rgullNum, iHiProd) =
                     AddSub_scale_loop rgullNum (if Hi32 pdecL = 0 then 0 else 1) iScale
               in AddSub_wide rgullNum iHiProd pdecR pdecRes bSign)))"

definition DecimalAddSub ::
  "DECIMAL \<Rightarrow> DECIMAL \<Rightarrow> DECIMAL \<Rightarrow> u8 \<Rightarrow> (HRESULT \<times> DECIMAL) option" where
  "DecimalAddSub pdecL pdecR pdecRes bSign =
     (let bSign = bSign XOR ((sign pdecR XOR sign pdecL) AND DECIMAL_NEG)
      in if scale pdecR = scale pdecL then
           (let pdecRes = pdecRes\<lparr>scale := scale pdecL, sign := sign pdecL\<rparr>
            in Some (AlignedAdd pdecL pdecR pdecRes bSign))
         else
           (let pdecRes = pdecRes\<lparr>scale := scale pdecR\<rparr>;
                pdecRes = pdecRes\<lparr>sign := sign pdecL\<rparr>;
                iScale = uint (scale pdecRes) - uint (scale pdecL)
            in if iScale < 0 then
                 AddSub_scaled pdecR pdecL
                   (pdecRes\<lparr>scale := scale pdecL, sign := sign pdecRes XOR bSign\<rparr>) bSign (- iScale)
               else AddSub_scaled pdecL pdecR pdecRes bSign iScale))"

definition DecimalAdd :: "DECIMAL \<Rightarrow> DECIMAL \<Rightarrow> DECIMAL \<Rightarrow> (HRESULT \<times> DECIMAL) option" where
  "DecimalAdd l r res = DecimalAddSub l r res 0"

definition DecimalSub :: "DECIMAL \<Rightarrow> DECIMAL \<Rightarrow> DECIMAL \<Rightarrow> (HRESULT \<times> DECIMAL) option" where
  "DecimalSub l r res = DecimalAddSub l r res DECIMAL_NEG"

section \<open>Division helpers\<close>

definition SEARCHSCALE_MAX_SCALE :: int where
  "SEARCHSCALE_MAX_SCALE = POWER10_MAX64"

text \<open>\<^verbatim>\<open>PowerOvfl[k] = {Hi, Lo}\<close>: the upper 64 and the lower 32 bits of a 96-bit bound.\<close>

definition PowerOvfl :: "(u64 \<times> u32) list" where
  "PowerOvfl =
     [(0xFFFFFFFFFFFFFFFF, 0xFFFFFFFF),
      (1844674407370955161, 2576980377),
      (184467440737095516, 687194767),
      (18446744073709551, 2645699854),
      (1844674407370955, 694066715),
      (184467440737095, 2216890319),
      (18446744073709, 2369172679),
      (1844674407370, 4102387834),
      (184467440737, 410238783),
      (18446744073, 3047500985),
      (1844674407, 1593240287),
      (184467440, 3165801135),
      (18446744, 316580113),
      (1844674, 1749644929),
      (184467, 1892951411),
      (18446, 3195772248),
      (1844, 2896557602),
      (184, 2007642678),
      (18, 1918751186),
      (1, 3627848955)]"

definition OVFL_MAX32_1_HI :: u32 where
  "OVFL_MAX32_1_HI = 429496729"

text \<open>
  The division works on arrays of \<^verbatim>\<open>uint32_t\<close> that it also reads and writes
  as arrays of \<^verbatim>\<open>uint64_t\<close> (little-endian): \<open>rd64 xs i\<close> is the 64-bit
  value in the cells \<open>i\<close> and \<open>i + 1\<close>.
\<close>

definition rd64 :: "u32 list \<Rightarrow> nat \<Rightarrow> u64" where
  "rd64 xs i = make64 (xs ! (i + 1)) (xs ! i)"

definition wr64 :: "u32 list \<Rightarrow> nat \<Rightarrow> u64 \<Rightarrow> u32 list" where
  "wr64 xs i v = (xs[i := low32 v])[i + 1 := hi32 v]"

definition Add96By64_u32 :: "u32 list \<Rightarrow> u64 \<Rightarrow> bool \<times> u32 list" where
  "Add96By64_u32 plVal v =
     (let (carry, w) = AddCarry64 False (rd64 plVal 0) v;
          plVal = wr64 plVal 0 w;
          (carry, h) = AddCarry32 carry (plVal ! 2) 0
      in (carry, plVal[2 := h]))"

definition Add96By32_u32 :: "u32 list \<Rightarrow> u32 \<Rightarrow> bool \<times> u32 list" where
  "Add96By32_u32 plVal v =
     (let (carry, w) = AddCarry32 False (plVal ! 0) v;
          plVal = plVal[0 := w];
          (carry, w) = AddCarry32 carry (plVal ! 1) 0;
          plVal = plVal[1 := w];
          (carry, w) = AddCarry32 carry (plVal ! 2) 0
      in (carry, plVal[2 := w]))"

text \<open>Both return the bits of the product above 96 and the array with its low 96 bits.\<close>

definition IncreaseScale96By64 :: "u32 list \<Rightarrow> u64 \<Rightarrow> u64 \<times> u32 list" where
  "IncreaseScale96By64 rgulNum ulPwr =
     (let (w, hi) = Mul64By64 (rd64 rgulNum 0) ulPwr;
          rgulNum = wr64 rgulNum 0 w;
          (tmp64, overflow) = Mul64By64 (ucast (rgulNum ! 2)) ulPwr;
          (carry, tmp64) = AddCarry64 False tmp64 hi;
          (c, overflow) = AddCarry64 carry overflow 0;
          rgulNum = rgulNum[2 := low32 tmp64]
      in (push_bit 32 (ucast (low32 overflow)) + ucast (hi32 tmp64), rgulNum))"

definition IncreaseScale96By32 :: "u32 list \<Rightarrow> u32 \<Rightarrow> u32 \<times> u32 list" where
  "IncreaseScale96By32 rgulNum ulPwr =
     (let (w, hi) = Mul64By32 (rd64 rgulNum 0) ulPwr;
          rgulNum = wr64 rgulNum 0 w;
          sdlTmp = Mul32By32 (rgulNum ! 2) ulPwr + ucast hi;
          rgulNum = rgulNum[2 := low32 sdlTmp]
      in (hi32 sdlTmp, rgulNum))"

subsection \<open>SearchScale64\<close>

text \<open>The code after the label \<^verbatim>\<open>HaveScale\<close>.\<close>

definition SearchScale_HaveScale :: "int \<Rightarrow> int \<Rightarrow> int" where
  "SearchScale_HaveScale iCurScale iScale =
     (if iCurScale + iScale < 0 \<and> iCurScale \<noteq> SEARCHSCALE_MAX_SCALE then - 1 else iCurScale)"

text \<open>The code after the label \<^verbatim>\<open>UpperEq\<close>, up to \<^verbatim>\<open>HaveScale\<close>.\<close>

definition SearchScale_UpperEq :: "u32 list \<Rightarrow> int \<Rightarrow> int" where
  "SearchScale_UpperEq rgulQuo iCurScale =
     (if snd (PowerOvfl ! nat iCurScale) < rgulQuo ! 0 then iCurScale - 1 else iCurScale)"

text \<open>The search by bit position, from \<^verbatim>\<open>if (ulResHi != 0)\<close> to \<^verbatim>\<open>HaveScale\<close>.\<close>

definition SearchScale_search :: "u32 list \<Rightarrow> u64 \<Rightarrow> int" where
  "SearchScale_search rgulQuo ulResHi =
     (if ulResHi \<noteq> 0 then
        (let (found, msb) = BitScanMsb64 ulResHi;
             iCurScale = 63 - int msb;
             iCurScale = (iCurScale * 77) div 256 + 1
         in if fst (PowerOvfl ! nat iCurScale) < ulResHi then iCurScale - 1
            else if ulResHi = fst (PowerOvfl ! nat iCurScale) then
              SearchScale_UpperEq rgulQuo iCurScale
            else iCurScale)
      else SEARCHSCALE_MAX_SCALE)"

definition SearchScale64 :: "u32 list \<Rightarrow> int \<Rightarrow> int" where
  "SearchScale64 rgulQuo iScale =
     (let hi = rgulQuo ! 2;
          mid = rgulQuo ! 1
      in if DEC_SCALE_MAX \<le> iScale \<or> OVFL_MAX32_1_HI < hi then SearchScale_HaveScale 0 iScale
         else
           (let ulResHi = push_bit 32 (ucast hi) + ucast mid
            in if DEC_SCALE_MAX - SEARCHSCALE_MAX_SCALE < iScale then
                 (let iCurScale = DEC_SCALE_MAX - iScale
                  in if ulResHi < fst (PowerOvfl ! nat iCurScale) then
                       SearchScale_HaveScale iCurScale iScale
                     else if ulResHi = fst (PowerOvfl ! nat iCurScale) then
                       SearchScale_HaveScale (SearchScale_UpperEq rgulQuo iCurScale) iScale
                     else SearchScale_HaveScale (SearchScale_search rgulQuo ulResHi) iScale)
               else SearchScale_HaveScale (SearchScale_search rgulQuo ulResHi) iScale))"

subsection \<open>Partial divisions\<close>

text \<open>\<^verbatim>\<open>Div96By32_x64\<close>: the quotient overwrites the dividend, the remainder is returned.\<close>

definition Div96By32_x64 :: "u32 list \<Rightarrow> u32 \<Rightarrow> u32 list \<times> u32" where
  "Div96By32_x64 rgulNum ulDen =
     (let Div1Word = (\<lambda>rgulNum remainder.
            let (q, remainder) = DivMod64By32InPlace (rgulNum ! 0) remainder ulDen
            in (rgulNum[0 := q], remainder));
          Div2Word = (\<lambda>rgulNum remainder.
            let (q, remainder) = DivMod64By32InPlace (rgulNum ! 1) remainder ulDen
            in Div1Word (rgulNum[1 := q]) remainder)
      in if ulDen \<le> rgulNum ! 2 then
           (let (q, remainder) = DivMod32By32 (rgulNum ! 2) ulDen
            in Div2Word (rgulNum[2 := q]) remainder)
         else
           (let remainder = rgulNum ! 2;
                rgulNum = rgulNum[2 := 0]
            in if remainder \<noteq> 0 \<or> ulDen \<le> rgulNum ! 1 then Div2Word rgulNum remainder
               else
                 (let remainder = rgulNum ! 1;
                      rgulNum = rgulNum[1 := 0]
                  in Div1Word rgulNum remainder)))"

text \<open>
  The loops that add the divisor back until the remainder is positive have no bound of
  their own: not returning is the value \<open>None\<close>.
\<close>

partial_function (option) Div128By96_addback ::
  "u32 \<Rightarrow> u64 \<Rightarrow> u32 \<Rightarrow> u64 \<Rightarrow> u32 \<Rightarrow> (u32 \<times> u64 \<times> u32) option" where
  "Div128By96_addback quo sdlNum num2 den0 den2 =
     (let quo = quo - 1;
          (carry, sdlNum) = AddCarry64 False sdlNum den0;
          (carry, num2) = AddCarry32 carry num2 den2
      in if \<not> carry then Div128By96_addback quo sdlNum num2 den0 den2
         else Some (quo, sdlNum, num2))"

declare Div128By96_addback.simps [code]

text \<open>
  \<^verbatim>\<open>Div128By96_x64(&rgulNum[b], rgulDen)\<close>: the dividend is the four cells from
  \<open>b\<close> on. It returns the quotient and the array.
\<close>

definition Div128By96_x64 :: "u32 list \<Rightarrow> nat \<Rightarrow> u32 list \<Rightarrow> (u64 \<times> u32 list) option" where
  "Div128By96_x64 rgulNum b rgulDen =
     (if rgulNum ! (b + 3) = 0 \<and> rgulNum ! (b + 2) < rgulDen ! 2 then Some (0, rgulNum)
      else
        (let (quo, remainder) = DivMod64By32 (rgulNum ! (b + 2)) (rgulNum ! (b + 3)) (rgulDen ! 2);
             (sdlProd1, hi) = Mul64By32 (rd64 rgulDen 0) quo;
             (carry, sdlNum) = SubBorrow64 False (rd64 rgulNum b) sdlProd1;
             (carry, w) = SubBorrow32 carry remainder hi;
             rgulNum = rgulNum[b + 2 := w]
         in if carry then
              (case Div128By96_addback quo sdlNum (rgulNum ! (b + 2)) (rd64 rgulDen 0) (rgulDen ! 2) of
                 None \<Rightarrow> None
               | Some (quo, sdlNum, w) \<Rightarrow> Some (ucast quo, wr64 (rgulNum[b + 2 := w]) b sdlNum))
            else Some (ucast quo, wr64 rgulNum b sdlNum)))"

definition Div160By96_x64 :: "u32 list \<Rightarrow> u32 list \<Rightarrow> (u64 \<times> u32 list) option" where
  "Div160By96_x64 rgulNum rgulDen =
     (case (if ucast (rgulDen ! 2) \<le> rd64 rgulNum 3 then
              (case Div128By96_x64 rgulNum 1 rgulDen of
                 None \<Rightarrow> None
               | Some (q, rgulNum) \<Rightarrow> Some (push_bit 32 q, rgulNum))
            else Some (0, rgulNum)) of
        None \<Rightarrow> None
      | Some (quo, rgulNum) \<Rightarrow>
          (case Div128By96_x64 rgulNum 0 rgulDen of
             None \<Rightarrow> None
           | Some (q, rgulNum) \<Rightarrow> Some (quo + q, rgulNum)))"

partial_function (option) Div96By64_NegRem :: "u32 \<Rightarrow> u64 \<Rightarrow> u64 \<Rightarrow> (u32 \<times> u64) option" where
  "Div96By64_NegRem quo sdlNum ullDen =
     (let quo = quo - 1;
          sdlNum = sdlNum + ullDen
      in if ullDen \<le> sdlNum then Div96By64_NegRem quo sdlNum ullDen
         else Some (quo, sdlNum))"

declare Div96By64_NegRem.simps [code]

text \<open>
  \<^verbatim>\<open>Div96By64_x64\<close> on the three low cells of the array. The high half of
  \<^verbatim>\<open>sdlNum\<close> is set on both paths before \<^verbatim>\<open>sdlNum\<close> is read.
\<close>

definition Div96By64_x64 :: "u32 list \<Rightarrow> u64 \<Rightarrow> (u32 \<times> u32 list) option" where
  "Div96By64_x64 rgulNum ullDen =
     (if hi32 ullDen \<le> rgulNum ! 2 then
        (let sdlNum = make64 (rgulNum ! 1 - low32 ullDen) (rgulNum ! 0)
         in case Div96By64_NegRem 0 sdlNum ullDen of
              None \<Rightarrow> None
            | Some (quo, sdlNum) \<Rightarrow> Some (quo, wr64 rgulNum 0 sdlNum))
      else if rgulNum ! 2 = 0 \<and> rd64 rgulNum 0 < ullDen then Some (0, rgulNum)
      else
        (let (quo, h) = DivMod64By32 (rgulNum ! 1) (rgulNum ! 2) (hi32 ullDen);
             sdlNum = make64 h (rgulNum ! 0);
             sdlProd = Mul32By32 quo (low32 ullDen);
             (carry, sdlNum) = SubBorrow64 False sdlNum sdlProd
         in if carry then
              (case Div96By64_NegRem quo sdlNum ullDen of
                 None \<Rightarrow> None
               | Some (quo, sdlNum) \<Rightarrow> Some (quo, wr64 rgulNum 0 sdlNum))
            else Some (quo, wr64 rgulNum 0 sdlNum)))"

partial_function (option) Div128By64_NegRem :: "u64 \<Rightarrow> u64 \<Rightarrow> u64 \<Rightarrow> (u64 \<times> u64) option" where
  "Div128By64_NegRem quotient64 sdlNum ullDen =
     (let quotient64 = quotient64 - 1;
          sdlNum = sdlNum + ullDen
      in if ullDen \<le> sdlNum then Div128By64_NegRem quotient64 sdlNum ullDen
         else Some (quotient64, sdlNum))"

declare Div128By64_NegRem.simps [code]

definition Div128By64_x64 :: "u32 list \<Rightarrow> u64 \<Rightarrow> (u64 \<times> u32 list) option" where
  "Div128By64_x64 rgulNum ullDen =
     (let hi64 = rd64 rgulNum 2
      in if ullDen \<le> hi64 then
           (case Div128By64_NegRem 0 (rd64 rgulNum 2) ullDen of
              None \<Rightarrow> None
            | Some (quotient64, sdlNum) \<Rightarrow> Some (quotient64, wr64 rgulNum 0 sdlNum))
         else
           (let low64 = rd64 rgulNum 0
            in if hi64 = 0 \<and> low64 < ullDen then Some (0, rgulNum)
               else
                 (let (quotient64, r) = DivMod128By64 low64 hi64 ullDen
                  in Some (quotient64, wr64 rgulNum 0 r))))"

section \<open>DecimalDiv\<close>

text \<open>
  What \<^verbatim>\<open>SearchScale64\<close> can return decides that the division loops end: a
  positive answer is only given below the maximal scale.
\<close>

lemma msb_index_less: "0 < k \<Longrightarrow> n < 2 ^ k \<Longrightarrow> msb_index n < k"
proof (induction k arbitrary: n)
  case 0
  then show ?case by simp
next
  case (Suc k)
  show ?case
  proof (cases "n < 2")
    case True
    then show ?thesis by (simp add: msb_index.simps)
  next
    case False
    then have k: "0 < k" using Suc.prems by (cases k) auto
    have "n div 2 < 2 ^ k" using Suc.prems by auto
    from Suc.IH [OF k this] False show ?thesis by (subst msb_index.simps) simp
  qed
qed

lemma msb_index_u64: "msb_index (unat (w :: u64)) < 64"
  using msb_index_less [of 64 "unat w"] unsigned_less [of w] by simp

lemma SearchScale_UpperEq_range:
  "iCurScale - 1 \<le> SearchScale_UpperEq q iCurScale \<and> SearchScale_UpperEq q iCurScale \<le> iCurScale"
  by (simp add: SearchScale_UpperEq_def)

lemma SearchScale_search_range:
  "0 \<le> SearchScale_search q h \<and> SearchScale_search q h \<le> 19"
proof -
  have m: "int (msb_index (unat h)) \<le> 63" using msb_index_u64 [of h] by simp
  have m0: "0 \<le> int (msb_index (unat h))" by simp
  define c where "c = ((63 - int (msb_index (unat h))) * 77) div 256 + 1"
  have c: "1 \<le> c \<and> c \<le> 19" unfolding c_def using m m0 by (simp add: pos_imp_zdiv_nonneg_iff)
  have "SearchScale_search q h =
          (if h \<noteq> 0 then
             (if fst (PowerOvfl ! nat c) < h then c - 1
              else if h = fst (PowerOvfl ! nat c) then SearchScale_UpperEq q c else c)
           else 19)"
    by (simp add: SearchScale_search_def BitScanMsb64_def Let_def c_def
          SEARCHSCALE_MAX_SCALE_def POWER10_MAX64_def)
  then show ?thesis
    using c SearchScale_UpperEq_range [of c q] by auto
qed

lemma SearchScale_HaveScale_range:
  "0 \<le> c \<Longrightarrow> - 1 \<le> SearchScale_HaveScale c s \<and> SearchScale_HaveScale c s \<le> c"
  by (simp add: SearchScale_HaveScale_def)

lemma SearchScale64_lower: "- 1 \<le> SearchScale64 q s"
proof -
  have a: "\<And>h. - 1 \<le> SearchScale_HaveScale (SearchScale_search q h) s"
    using SearchScale_HaveScale_range SearchScale_search_range by blast
  have b: "- 1 \<le> SearchScale_HaveScale (SearchScale_UpperEq q c) s" if "1 \<le> c" for c
    using that SearchScale_HaveScale_range [of "SearchScale_UpperEq q c" s]
      SearchScale_UpperEq_range [of c q] by linarith
  have c: "\<And>c. 0 \<le> c \<Longrightarrow> - 1 \<le> SearchScale_HaveScale c s"
    using SearchScale_HaveScale_range by blast
  have d: "1 \<le> 28 - s" if "\<not> 28 \<le> s" using that by simp
  show ?thesis
    unfolding SearchScale64_def Let_def DEC_SCALE_MAX_def
    using a b [OF d] c [of 0] c [of "28 - s"] by auto
qed

lemma SearchScale64_at_max: "28 \<le> s \<Longrightarrow> SearchScale64 q s \<le> 0"
  by (simp add: SearchScale64_def DEC_SCALE_MAX_def SearchScale_HaveScale_def)

lemma SearchScale64_step:
  "SearchScale64 q s \<noteq> 0 \<Longrightarrow> SearchScale64 q s \<noteq> - 1 \<Longrightarrow> s < 28 \<and> 1 \<le> SearchScale64 q s"
  using SearchScale64_lower [of q s] SearchScale64_at_max [of s q] by linarith

text \<open>
  The three loops end with \<^verbatim>\<open>return DISP_E_OVERFLOW\<close> (\<open>Inl\<close>) or leave
  through \<^verbatim>\<open>break\<close> with the quotient, the scale and \<^verbatim>\<open>fUnscale\<close>
  (\<open>Inr\<close>). A jump to \<^verbatim>\<open>RoundUp\<close> adds one to the quotient and leaves the
  loop it stands in, which is the end of all three.

  One pass through a loop body either ends the loop (\<open>Inl\<close> of the exit) or reaches
  the end of the body with a new quotient, remainder, scale and \<^verbatim>\<open>fUnscale\<close>
  (\<open>Inr\<close>). The code from a label \<^verbatim>\<open>HaveScale..\<close> to the end of the body
  is entered from two places and is a function of its own.
\<close>

type_synonym div_exit = "HRESULT + (u32 list \<times> int \<times> bool)"

type_synonym div_pass = "div_exit + (u32 list \<times> u32 list \<times> int \<times> bool)"

subsection \<open>32-bit divisor\<close>

text \<open>From \<^verbatim>\<open>HaveScale32\<close> to the end of the body; \<^verbatim>\<open>rgulRem[0]\<close> holds the remainder.\<close>

definition Div32_HaveScale32 ::
  "u32 list \<Rightarrow> u32 list \<Rightarrow> u32 list \<Rightarrow> int \<Rightarrow> bool \<Rightarrow> int \<Rightarrow> div_pass" where
  "Div32_HaveScale32 rgulQuo rgulRem rgulDivisor iScale fUnscale iCurScale =
     (let ullPwr32 = ucast (rgulPower10_64 ! nat iCurScale);
          iScale = iScale + iCurScale;
          (ovf, rgulQuo) = IncreaseScale96By32 rgulQuo ullPwr32
      in if ovf \<noteq> 0 then Inl (Inl DISP_E_OVERFLOW)
         else
           (let num = Mul32By32 (rgulRem ! 0) ullPwr32;
                (ullTmp32, r) = DivMod64By32 (low32 num) (hi32 num) (rgulDivisor ! 0);
                rgulRem = rgulRem[0 := r];
                (c, rgulQuo) = Add96By32_u32 rgulQuo ullTmp32
            in Inr (rgulQuo, rgulRem, iScale, fUnscale)))"

definition Div32_pass :: "u32 list \<Rightarrow> u32 list \<Rightarrow> u32 list \<Rightarrow> int \<Rightarrow> bool \<Rightarrow> div_pass" where
  "Div32_pass rgulQuo rgulRem rgulDivisor iScale fUnscale =
     (if rgulRem ! 0 = 0 then
        (if iScale < 0 then
           Div32_HaveScale32 rgulQuo rgulRem rgulDivisor iScale fUnscale
             (min POWER10_MAX32 (- iScale))
         else Inl (Inr (rgulQuo, iScale, fUnscale)))
      else
        (let fUnscale = True;
             iCurScale = SearchScale64 rgulQuo iScale
         in if iCurScale = 0 then
              (let ulTmp = push_bit 1 (rgulRem ! 0)
               in if ulTmp < rgulRem ! 0 \<or> rgulDivisor ! 0 < ulTmp \<or>
                     (ulTmp = rgulDivisor ! 0 \<and> rgulQuo ! 0 AND 1 \<noteq> 0)
                  then Inl (Inr (snd (Add96By32_u32 rgulQuo 1), iScale, fUnscale))
                  else Inl (Inr (rgulQuo, iScale, fUnscale)))
            else if iCurScale = - 1 then Inl (Inl DISP_E_OVERFLOW)
            else
              Div32_HaveScale32 rgulQuo rgulRem rgulDivisor iScale fUnscale
                (min iCurScale POWER10_MAX32)))"

lemma Div32_pass_Inr:
  assumes "Div32_pass q r d s f = Inr (q', r', s', f')"
  shows "s < 28 \<and> s < s'"
proof (cases "r ! 0 = 0")
  case True
  then show ?thesis
    using assms
    by (auto simp: Div32_pass_def Div32_HaveScale32_def Let_def POWER10_MAX32_def
          split: if_splits prod.splits)
next
  case False
  have "s < 28 \<and> 1 \<le> SearchScale64 q s"
    if "SearchScale64 q s \<noteq> 0" "SearchScale64 q s \<noteq> - 1"
    using that by (rule SearchScale64_step)
  then show ?thesis
    using assms False
    by (auto simp: Div32_pass_def Div32_HaveScale32_def Let_def POWER10_MAX32_def
          split: if_splits prod.splits)
qed

function Div32_loop :: "u32 list \<Rightarrow> u32 list \<Rightarrow> u32 list \<Rightarrow> int \<Rightarrow> bool \<Rightarrow> div_exit" where
  "Div32_loop rgulQuo rgulRem rgulDivisor iScale fUnscale =
     (case Div32_pass rgulQuo rgulRem rgulDivisor iScale fUnscale of
        Inl ex \<Rightarrow> ex
      | Inr (rgulQuo', rgulRem', iScale', fUnscale') \<Rightarrow>
          Div32_loop rgulQuo' rgulRem' rgulDivisor iScale' fUnscale')"
  by pat_completeness auto
termination
proof (relation "measure (\<lambda>(q, r, d, iScale, f). nat (28 - iScale))", goal_cases)
  case 1
  show ?case by simp
next
  case (2 q r d s f x2 q' x r' y s' f')
  then have "Div32_pass q r d s f = Inr (q', r', s', f')" by simp
  from Div32_pass_Inr [OF this] show ?case by simp
qed

declare Div32_loop.simps [simp del]

subsection \<open>64-bit divisor\<close>

text \<open>
  From \<^verbatim>\<open>HaveScale64\<close> to the end of the body; \<^verbatim>\<open>rgullRem[0]\<close> holds the
  remainder, \<^verbatim>\<open>ullDivisor\<close> the normalised divisor.
\<close>

definition Div64_HaveScale64 ::
  "u32 list \<Rightarrow> u32 list \<Rightarrow> u64 \<Rightarrow> int \<Rightarrow> bool \<Rightarrow> int \<Rightarrow> div_pass option" where
  "Div64_HaveScale64 rgulQuo rgulRem ullDivisor iScale fUnscale iCurScale =
     (let iCurScale = min iCurScale POWER10_MAX32;
          ullPwr32 = ucast (rgulPower10_64 ! nat iCurScale);
          iScale = iScale + iCurScale;
          (ovf, rgulQuo) = IncreaseScale96By32 rgulQuo ullPwr32
      in if ovf \<noteq> 0 then Some (Inl (Inl DISP_E_OVERFLOW))
         else
           (let (w, h) = Mul64By32 (rd64 rgulRem 0) ullPwr32;
                rgulRem = wr64 rgulRem 0 w;
                rgulRem = rgulRem[2 := h]
            in case Div96By64_x64 rgulRem ullDivisor of
                 None \<Rightarrow> None
               | Some (tmp32, rgulRem) \<Rightarrow>
                   (let (c, rgulQuo) = Add96By32_u32 rgulQuo tmp32
                    in Some (Inr (rgulQuo, rgulRem, iScale, fUnscale)))))"

definition Div64_pass :: "u32 list \<Rightarrow> u32 list \<Rightarrow> u64 \<Rightarrow> int \<Rightarrow> bool \<Rightarrow> div_pass option" where
  "Div64_pass rgulQuo rgulRem ullDivisor iScale fUnscale =
     (if rd64 rgulRem 0 = 0 then
        (if iScale < 0 then
           Div64_HaveScale64 rgulQuo rgulRem ullDivisor iScale fUnscale
             (min POWER10_MAX64 (- iScale))
         else Some (Inl (Inr (rgulQuo, iScale, fUnscale))))
      else
        (let fUnscale = True;
             iCurScale = SearchScale64 rgulQuo iScale
         in if iCurScale = 0 then
              (let ullTmp64 = rd64 rgulRem 0
               in if 0x8000000000000000 \<le> ullTmp64 \<or> ullDivisor < push_bit 1 ullTmp64 \<or>
                     (push_bit 1 ullTmp64 = ullDivisor \<and> rgulQuo ! 0 AND 1 \<noteq> 0)
                  then Some (Inl (Inr (snd (Add96By32_u32 rgulQuo 1), iScale, fUnscale)))
                  else Some (Inl (Inr (rgulQuo, iScale, fUnscale))))
            else if iCurScale = - 1 then Some (Inl (Inl DISP_E_OVERFLOW))
            else Div64_HaveScale64 rgulQuo rgulRem ullDivisor iScale fUnscale iCurScale))"

lemma Div64_HaveScale64_Inr:
  assumes "Div64_HaveScale64 q r d s f c = Some (Inr (q', r', s', f'))"
  shows "s' = s + min c 9 \<and> f' = f"
  using assms
  by (auto simp: Div64_HaveScale64_def Let_def POWER10_MAX32_def
        split: if_splits prod.splits option.splits)

lemma Div64_pass_Inr:
  assumes "Div64_pass q r d s f = Some (Inr (q', r', s', f'))"
  shows "s < 28 \<and> s < s'"
proof (cases "rd64 r 0 = 0")
  case True
  then show ?thesis
    using assms
    by (auto simp: Div64_pass_def POWER10_MAX64_def split: if_splits
          dest!: Div64_HaveScale64_Inr)
next
  case False
  have "s < 28 \<and> 1 \<le> SearchScale64 q s"
    if "SearchScale64 q s \<noteq> 0" "SearchScale64 q s \<noteq> - 1"
    using that by (rule SearchScale64_step)
  then show ?thesis
    using assms False
    by (auto simp: Div64_pass_def Let_def split: if_splits dest!: Div64_HaveScale64_Inr)
qed

function Div64_loop :: "u32 list \<Rightarrow> u32 list \<Rightarrow> u64 \<Rightarrow> int \<Rightarrow> bool \<Rightarrow> div_exit option" where
  "Div64_loop rgulQuo rgulRem ullDivisor iScale fUnscale =
     (case Div64_pass rgulQuo rgulRem ullDivisor iScale fUnscale of
        None \<Rightarrow> None
      | Some (Inl ex) \<Rightarrow> Some ex
      | Some (Inr (rgulQuo', rgulRem', iScale', fUnscale')) \<Rightarrow>
          Div64_loop rgulQuo' rgulRem' ullDivisor iScale' fUnscale')"
  by pat_completeness auto
termination
proof (relation "measure (\<lambda>(q, r, d, iScale, f). nat (28 - iScale))", goal_cases)
  case 1
  show ?case by simp
next
  case (2 q r d s f x2 x2a q' x r' y s' f')
  then have "Div64_pass q r d s f = Some (Inr (q', r', s', f'))" by simp
  from Div64_pass_Inr [OF this] show ?case by simp
qed

declare Div64_loop.simps [simp del]

subsection \<open>96-bit divisor\<close>

text \<open>
  From \<^verbatim>\<open>HaveScale96\<close> to the end of the body; \<^verbatim>\<open>rgulRem[0..2]\<close> holds
  the remainder, \<^verbatim>\<open>rgulDivisor\<close> the normalised divisor.
\<close>

definition Div96_HaveScale96 ::
  "u32 list \<Rightarrow> u32 list \<Rightarrow> u32 list \<Rightarrow> int \<Rightarrow> bool \<Rightarrow> int \<Rightarrow> div_pass option" where
  "Div96_HaveScale96 rgulQuo rgulRem rgulDivisor iScale fUnscale iCurScale =
     (let ullPwr64 = rgulPower10_64 ! nat iCurScale;
          iScale = iScale + iCurScale;
          (ovf, rgulQuo) = IncreaseScale96By64 rgulQuo ullPwr64
      in if ovf \<noteq> 0 then Some (Inl (Inl DISP_E_OVERFLOW))
         else
           (let (tmp64, rgulRem) = IncreaseScale96By64 rgulRem ullPwr64;
                rgulRem = wr64 rgulRem 3 tmp64
            in case Div160By96_x64 rgulRem rgulDivisor of
                 None \<Rightarrow> None
               | Some (quo, rgulRem) \<Rightarrow>
                   (let (c, rgulQuo) = Add96By64_u32 rgulQuo quo
                    in Some (Inr (rgulQuo, rgulRem, iScale, fUnscale)))))"

definition Div96_pass :: "u32 list \<Rightarrow> u32 list \<Rightarrow> u32 list \<Rightarrow> int \<Rightarrow> bool \<Rightarrow> div_pass option" where
  "Div96_pass rgulQuo rgulRem rgulDivisor iScale fUnscale =
     (if (rd64 rgulRem 0 OR ucast (rgulRem ! 2)) = 0 then
        (if iScale < 0 then
           Div96_HaveScale96 rgulQuo rgulRem rgulDivisor iScale fUnscale
             (min POWER10_MAX64 (- iScale))
         else Some (Inl (Inr (rgulQuo, iScale, fUnscale))))
      else
        (let fUnscale = True;
             iCurScale = SearchScale64 rgulQuo iScale
         in if iCurScale = 0 then
              (if 0x80000000 \<le> rgulRem ! 2 then
                 Some (Inl (Inr (snd (Add96By32_u32 rgulQuo 1), iScale, fUnscale)))
               else
                 (let (carry, w) = AddCarry64 False (rd64 rgulRem 0) (rd64 rgulRem 0);
                      rgulRem = wr64 rgulRem 0 w;
                      (c, h) = AddCarry32 carry (rgulRem ! 2) (rgulRem ! 2);
                      rgulRem = rgulRem[2 := h]
                  in if rgulDivisor ! 2 < rgulRem ! 2 \<or>
                        (rgulRem ! 2 = rgulDivisor ! 2 \<and>
                         (rd64 rgulDivisor 0 < rd64 rgulRem 0 \<or>
                          (rd64 rgulRem 0 = rd64 rgulDivisor 0 \<and> rgulQuo ! 0 AND 1 \<noteq> 0)))
                     then Some (Inl (Inr (snd (Add96By32_u32 rgulQuo 1), iScale, fUnscale)))
                     else Some (Inl (Inr (rgulQuo, iScale, fUnscale)))))
            else if iCurScale = - 1 then Some (Inl (Inl DISP_E_OVERFLOW))
            else Div96_HaveScale96 rgulQuo rgulRem rgulDivisor iScale fUnscale iCurScale))"

lemma Div96_HaveScale96_Inr:
  assumes "Div96_HaveScale96 q r d s f c = Some (Inr (q', r', s', f'))"
  shows "s' = s + c \<and> f' = f"
  using assms
  by (auto simp: Div96_HaveScale96_def Let_def split: if_splits prod.splits option.splits)

lemma Div96_pass_Inr:
  assumes "Div96_pass q r d s f = Some (Inr (q', r', s', f'))"
  shows "s < 28 \<and> s < s'"
proof (cases "(rd64 r 0 OR ucast (r ! 2)) = 0")
  case True
  then show ?thesis
    using assms
    by (auto simp: Div96_pass_def POWER10_MAX64_def split: if_splits
          dest!: Div96_HaveScale96_Inr)
next
  case False
  have "s < 28 \<and> 1 \<le> SearchScale64 q s"
    if "SearchScale64 q s \<noteq> 0" "SearchScale64 q s \<noteq> - 1"
    using that by (rule SearchScale64_step)
  then show ?thesis
    using assms False
    by (auto simp: Div96_pass_def Let_def split: if_splits prod.splits
          dest!: Div96_HaveScale96_Inr)
qed

function Div96_loop :: "u32 list \<Rightarrow> u32 list \<Rightarrow> u32 list \<Rightarrow> int \<Rightarrow> bool \<Rightarrow> div_exit option" where
  "Div96_loop rgulQuo rgulRem rgulDivisor iScale fUnscale =
     (case Div96_pass rgulQuo rgulRem rgulDivisor iScale fUnscale of
        None \<Rightarrow> None
      | Some (Inl ex) \<Rightarrow> Some ex
      | Some (Inr (rgulQuo', rgulRem', iScale', fUnscale')) \<Rightarrow>
          Div96_loop rgulQuo' rgulRem' rgulDivisor iScale' fUnscale')"
  by pat_completeness auto
termination
proof (relation "measure (\<lambda>(q, r, d, iScale, f). nat (28 - iScale))", goal_cases)
  case 1
  show ?case by simp
next
  case (2 q r d s f x2 x2a q' x r' y s' f')
  then have "Div96_pass q r d s f = Some (Inr (q', r', s', f'))" by simp
  from Div96_pass_Inr [OF this] show ?case by simp
qed

declare Div96_loop.simps [simp del]

text \<open>
  The unscale steps. \<^verbatim>\<open>rgullQuoSave\<close> takes the three cells of the quotient
  (its fourth cell is never read).
\<close>

definition Div_unscale_try :: "u32 list \<Rightarrow> u32 \<Rightarrow> u32 list \<times> bool" where
  "Div_unscale_try rgulQuo ulDen =
     (let rgullQuoSave = [rgulQuo ! 0, rgulQuo ! 1, rgulQuo ! 2, 0];
          (rgullQuoSave, r) = Div96By32_x64 rgullQuoSave ulDen
      in if r = 0 then
           (rgulQuo[0 := rgullQuoSave ! 0, 1 := rgullQuoSave ! 1, 2 := rgullQuoSave ! 2], True)
         else (rgulQuo, False))"

function Div_unscale8 :: "u32 list \<Rightarrow> int \<Rightarrow> u32 list \<times> int" where
  "Div_unscale8 rgulQuo iScale =
     (if (rd64 rgulQuo 0 AND 0xFF) = 0 \<and> 8 \<le> iScale then
        (let (rgulQuo', ok) = Div_unscale_try rgulQuo 100000000
         in if ok then Div_unscale8 rgulQuo' (iScale - 8) else (rgulQuo, iScale))
      else (rgulQuo, iScale))"
  by pat_completeness auto
termination
  by (relation "measure (\<lambda>(q, iScale). nat iScale)") auto

declare Div_unscale8.simps [simp del]

definition Div_unscale_step :: "u64 \<Rightarrow> int \<Rightarrow> u32 \<Rightarrow> u32 list \<times> int \<Rightarrow> u32 list \<times> int" where
  "Div_unscale_step bits n ulDen qs =
     (let (rgulQuo, iScale) = qs
      in if (rd64 rgulQuo 0 AND bits) = 0 \<and> n \<le> iScale then
           (let (rgulQuo', ok) = Div_unscale_try rgulQuo ulDen
            in if ok then (rgulQuo', iScale - n) else (rgulQuo, iScale))
         else (rgulQuo, iScale))"

definition Div_unscale :: "u32 list \<Rightarrow> int \<Rightarrow> u32 list \<times> int" where
  "Div_unscale rgulQuo iScale =
     Div_unscale_step 1 1 10
       (Div_unscale_step 3 2 100
          (Div_unscale_step 0xF 4 10000
             (Div_unscale8 rgulQuo iScale)))"

text \<open>From \<^verbatim>\<open>if (fUnscale)\<close> to the return.\<close>

definition Div_finish :: "DECIMAL \<Rightarrow> DECIMAL \<Rightarrow> DECIMAL \<Rightarrow> div_exit \<Rightarrow> HRESULT \<times> DECIMAL" where
  "Div_finish pdecL pdecR pdecRes ex =
     (case ex of
        Inl e \<Rightarrow> (e, pdecRes)
      | Inr (rgulQuo, iScale, fUnscale) \<Rightarrow>
          (let (rgulQuo, iScale) = (if fUnscale then Div_unscale rgulQuo iScale
                                    else (rgulQuo, iScale))
           in (NOERROR,
               pdecRes\<lparr>Hi32 := rgulQuo ! 2, scale := of_int iScale,
                        sign := sign pdecL XOR sign pdecR, Lo64 := rd64 rgulQuo 0\<rparr>)))"

text \<open>
  The local arrays are not initialised in the code. Every cell is written before it is
  read, except \<^verbatim>\<open>rgulDivisor[3]\<close>, which the shift of the 96-bit divisor
  reads and which reaches no cell but itself; the arrays start as zeros here.
\<close>

definition DecimalDiv :: "DECIMAL \<Rightarrow> DECIMAL \<Rightarrow> DECIMAL \<Rightarrow> (HRESULT \<times> DECIMAL) option" where
  "DecimalDiv pdecL pdecR pdecRes =
     (let iScale = uint (scale pdecL) - uint (scale pdecR);
          rgulDivisor = wr64 [0, 0, 0, 0] 0 (Lo64 pdecR);
          rgulDivisor = rgulDivisor[2 := Hi32 pdecR]
      in if rgulDivisor ! 2 = 0 \<and> FitsIn32Bit (rd64 rgulDivisor 0) then
           (if rgulDivisor ! 0 = 0 then Some (DISP_E_DIVBYZERO, pdecRes)
            else
              (let rgulQuo = wr64 [0, 0, 0, 0] 0 (Lo64 pdecL);
                   rgulQuo = rgulQuo[2 := Hi32 pdecL];
                   (rgulQuo, r) = Div96By32_x64 rgulQuo (rgulDivisor ! 0);
                   rgulRem = [0, 0, 0, 0, 0, 0][0 := r]
               in Some (Div_finish pdecL pdecR pdecRes
                          (Div32_loop rgulQuo rgulRem rgulDivisor iScale False))))
         else
           (let ulTmp = (if rgulDivisor ! 2 = 0 then rgulDivisor ! 1 else rgulDivisor ! 2);
                (found, msb) = BitScanMsb32 ulTmp;
                iCurScale = 31 - int msb;
                rgulRem = wr64 [0, 0, 0, 0, 0, 0] 0 (push_bit (nat iCurScale) (Lo64 pdecL));
                rgulRem = wr64 rgulRem 2
                            (ShiftLeft128 (Lo64 pdecL) (ucast (Hi32 pdecL)) (nat iCurScale));
                ullDivisor = push_bit (nat iCurScale) (rd64 rgulDivisor 0)
            in if rgulDivisor ! 2 = 0 then
                 (case Div128By64_x64 rgulRem ullDivisor of
                    None \<Rightarrow> None
                  | Some (q, rgulRem) \<Rightarrow>
                      (let rgulQuo = [0, 0, 0, 0][2 := 0];
                           rgulQuo = wr64 rgulQuo 0 q
                       in map_option (Div_finish pdecL pdecR pdecRes)
                            (Div64_loop rgulQuo rgulRem ullDivisor iScale False)))
               else
                 (let rgulDivisor = wr64 rgulDivisor 2
                        (ShiftLeft128 (rd64 rgulDivisor 0) (rd64 rgulDivisor 2) (nat iCurScale));
                      rgulDivisor = wr64 rgulDivisor 0 ullDivisor
                  in case Div128By96_x64 rgulRem 0 rgulDivisor of
                       None \<Rightarrow> None
                     | Some (q, rgulRem) \<Rightarrow>
                         (let rgulQuo = [0, 0, 0, 0][2 := 0];
                              rgulQuo = wr64 rgulQuo 0 q
                          in map_option (Div_finish pdecL pdecR pdecRes)
                               (Div96_loop rgulQuo rgulRem rgulDivisor iScale False)))))"

section \<open>The callers in decimal.cpp\<close>

text \<open>
  \<^verbatim>\<open>COMDecimal::DoMultiply\<close>, \<^verbatim>\<open>DoDivide\<close> and \<^verbatim>\<open>DoAddSub\<close>
  call the operation on a local \<^verbatim>\<open>DECIMAL decRes\<close>, which is not initialised:
  its content before the call is the parameter \<open>decRes\<close>. On success they copy the
  result over the left operand (\<^verbatim>\<open>COPYDEC\<close> is a plain assignment) and clear
  \<^verbatim>\<open>wReserved\<close>. They return the left operand as it is at the return together
  with \<^verbatim>\<open>*overflowed\<close>; \<^verbatim>\<open>FCThrowVoid\<close> is the value \<open>Inl\<close>.
  \<^verbatim>\<open>FAILED\<close> is the test for a negative \<^verbatim>\<open>HRESULT\<close>: every code but
  \<^verbatim>\<open>NOERROR\<close>.
\<close>

datatype RuntimeException = kOverflowException | kDivideByZeroException

definition FAILED :: "HRESULT \<Rightarrow> bool" where
  "FAILED hr = (hr \<noteq> NOERROR)"

definition DoMultiply :: "DECIMAL \<Rightarrow> DECIMAL \<Rightarrow> DECIMAL \<Rightarrow> (DECIMAL \<times> bool) option" where
  "DoMultiply d1 d2 decRes =
     (case DecimalMul d1 d2 decRes of
        None \<Rightarrow> None
      | Some (hr, decRes) \<Rightarrow>
          if FAILED hr then Some (d1, True)
          else (let d1 = decRes; d1 = d1\<lparr>wReserved := 0\<rparr> in Some (d1, False)))"

definition DoDivide ::
  "DECIMAL \<Rightarrow> DECIMAL \<Rightarrow> DECIMAL \<Rightarrow> (RuntimeException + DECIMAL \<times> bool) option" where
  "DoDivide pdecL pdecR decRes =
     (case DecimalDiv pdecL pdecR decRes of
        None \<Rightarrow> None
      | Some (hr, decRes) \<Rightarrow>
          if FAILED hr then
            (if hr = DISP_E_DIVBYZERO then Some (Inl kDivideByZeroException)
             else Some (Inr (pdecL, True)))
          else (let pdecL = decRes; pdecL = pdecL\<lparr>wReserved := 0\<rparr>
                in Some (Inr (pdecL, False))))"

definition DoAddSub :: "DECIMAL \<Rightarrow> DECIMAL \<Rightarrow> u8 \<Rightarrow> DECIMAL \<Rightarrow> (DECIMAL \<times> bool) option" where
  "DoAddSub pdecL pdecR bSign decRes =
     (case DecimalAddSub pdecL pdecR decRes bSign of
        None \<Rightarrow> None
      | Some (hr, decRes) \<Rightarrow>
          if FAILED hr then Some (pdecL, True)
          else (let pdecL = decRes; pdecL = pdecL\<lparr>wReserved := 0\<rparr> in Some (pdecL, False)))"

section \<open>NumberToDecimal\<close>

text \<open>
  \<^verbatim>\<open>NUMBER\<close> (declared in \<^verbatim>\<open>number.h\<close>): the decimal exponent
  \<^verbatim>\<open>scale\<close>, the sign flag and the digit string. \<open>digits\<close> holds the
  characters in front of the terminating zero; \<open>digit_at\<close> reads \<^verbatim>\<open>digits[i]\<close>,
  the terminator from the end of the list on. The rounding code can read
  \<^verbatim>\<open>digits[-1]\<close>, the cell in front of the string: its content is the
  parameter \<open>front\<close> of the model.
\<close>

record NUMBER =
  number_scale :: int
  number_sign :: int
  digits :: "u16 list"

definition digit_at :: "u16 list \<Rightarrow> u16 \<Rightarrow> int \<Rightarrow> u16" where
  "digit_at ds front i =
     (if i < 0 then front else if nat i < length ds then ds ! nat i else 0)"

definition DecShiftLeft :: "DECIMAL \<Rightarrow> DECIMAL" where
  "DecShiftLeft v =
     (let c0 = (if low32_dec v AND 0x80000000 \<noteq> 0 then 1 else 0);
          c1 = (if mid32_dec v AND 0x80000000 \<noteq> 0 then 1 else 0);
          v = v\<lparr>Lo64 := set_low32 (Lo64 v) (push_bit 1 (low32_dec v))\<rparr>;
          v = v\<lparr>Lo64 := set_hi32 (Lo64 v) (push_bit 1 (mid32_dec v) OR c0)\<rparr>
      in v\<lparr>Hi32 := push_bit 1 (Hi32 v) OR c1\<rparr>)"

text \<open>\<^verbatim>\<open>D32AddCarry\<close> returns the carry and the cell.\<close>

definition D32AddCarry :: "u32 \<Rightarrow> u32 \<Rightarrow> bool \<times> u32" where
  "D32AddCarry v i = (let sum = v + i in (sum < v \<or> sum < i, sum))"

definition DecAdd :: "DECIMAL \<Rightarrow> DECIMAL \<Rightarrow> DECIMAL" where
  "DecAdd v d =
     (let (c, w) = D32AddCarry (low32_dec v) (low32_dec d);
          v = v\<lparr>Lo64 := set_low32 (Lo64 v) w\<rparr>;
          v = (if c then
                 (let (c, w) = D32AddCarry (mid32_dec v) 1;
                      v = v\<lparr>Lo64 := set_hi32 (Lo64 v) w\<rparr>
                  in if c then v\<lparr>Hi32 := snd (D32AddCarry (Hi32 v) 1)\<rparr> else v)
               else v);
          (c, w) = D32AddCarry (mid32_dec v) (mid32_dec d);
          v = v\<lparr>Lo64 := set_hi32 (Lo64 v) w\<rparr>;
          v = (if c then v\<lparr>Hi32 := snd (D32AddCarry (Hi32 v) 1)\<rparr> else v)
      in v\<lparr>Hi32 := snd (D32AddCarry (Hi32 v) (Hi32 d))\<rparr>)"

definition DecMul10 :: "DECIMAL \<Rightarrow> DECIMAL" where
  "DecMul10 v = (let d = v in DecShiftLeft (DecAdd (DecShiftLeft (DecShiftLeft v)) d))"

definition DecAddInt32 :: "DECIMAL \<Rightarrow> u32 \<Rightarrow> DECIMAL" where
  "DecAddInt32 v i =
     (let (c, w) = D32AddCarry (low32_dec v) i;
          v = v\<lparr>Lo64 := set_low32 (Lo64 v) w\<rparr>
      in if c then
           (let (c, w) = D32AddCarry (mid32_dec v) 1;
                v = v\<lparr>Lo64 := set_hi32 (Lo64 v) w\<rparr>
            in if c then v\<lparr>Hi32 := snd (D32AddCarry (Hi32 v) 1)\<rparr> else v)
         else v)"

text \<open>
  The digit absorbing loop, with \<open>p\<close> the index of \<^verbatim>\<open>*p\<close>; it returns
  \<^verbatim>\<open>d\<close>, \<open>p\<close> and \<^verbatim>\<open>e\<close>. The characters \<^verbatim>\<open>'0'\<close> and
  \<^verbatim>\<open>'5'\<close> are 48 and 53.
\<close>

function NumberToDecimal_absorb ::
  "u16 list \<Rightarrow> u16 \<Rightarrow> DECIMAL \<Rightarrow> int \<Rightarrow> int \<Rightarrow> DECIMAL \<times> int \<times> int" where
  "NumberToDecimal_absorb ds front d p e =
     (if (0 < e \<or> (digit_at ds front p \<noteq> 0 \<and> - 28 < e)) \<and>
         (Hi32 d < 0x19999999 \<or> (Hi32 d = 0x19999999 \<and>
            (mid32_dec d < 0x99999999 \<or> (mid32_dec d = 0x99999999 \<and>
               (low32_dec d < 0x99999999 \<or> (low32_dec d = 0x99999999 \<and>
                  digit_at ds front p \<le> 53))))))
      then
        (let d = DecMul10 d
         in if digit_at ds front p \<noteq> 0 then
              NumberToDecimal_absorb ds front
                (DecAddInt32 d (ucast (digit_at ds front p) - 48)) (p + 1) (e - 1)
            else NumberToDecimal_absorb ds front d p (e - 1))
      else (d, p, e))"
  by pat_completeness auto
termination
  by (relation "measure (\<lambda>(ds, b, d, p, e). nat (e + 28))") auto

declare NumberToDecimal_absorb.simps [simp del]

text \<open>
  The scan \<^verbatim>\<open>while (*p == '0' && count != 0)\<close> over the digits after a 5;
  it returns \<open>p\<close> and \<^verbatim>\<open>count\<close>.
\<close>

function NumberToDecimal_zeros :: "u16 list \<Rightarrow> u16 \<Rightarrow> int \<Rightarrow> int \<Rightarrow> int \<times> int" where
  "NumberToDecimal_zeros ds front p count =
     (if digit_at ds front p = 48 \<and> count \<noteq> 0 \<and> 0 < count then
        NumberToDecimal_zeros ds front (p + 1) (count - 1)
      else (p, count))"
  by pat_completeness auto
termination
  by (relation "measure (\<lambda>(ds, b, p, count). nat count)") auto

declare NumberToDecimal_zeros.simps [simp del]

text \<open>
  \<^verbatim>\<open>DECIMAL_PRECISION\<close> is defined in \<^verbatim>\<open>decimal.h\<close>, which is not
  among the sources: it is the first parameter of the model. The function returns 1
  with the value stored (\<open>Some\<close>) or 0 with nothing stored (\<open>None\<close>).
\<close>

definition NumberToDecimal :: "int \<Rightarrow> u16 \<Rightarrow> NUMBER \<Rightarrow> DECIMAL option" where
  "NumberToDecimal DECIMAL_PRECISION front number =
     (let d = \<lparr>wReserved = 0, scale = 0, sign = 0, Hi32 = 0, Lo64 = 0\<rparr>;
          ds = digits number;
          e = number_scale number;
          finish = (\<lambda>d e.
            if 0 < e then None
            else
              (let d = (if e \<le> - DECIMAL_PRECISION then
                          \<lparr>wReserved = wReserved d, scale = of_int (DECIMAL_PRECISION - 1),
                           sign = 0, Hi32 = 0, Lo64 = 0\<rparr>
                        else d\<lparr>scale := of_int (- e)\<rparr>)
               in Some (d\<lparr>sign := (if number_sign number \<noteq> 0 then DECIMAL_NEG else 0)\<rparr>)))
      in if digit_at ds front 0 = 0 then finish d (if 0 < e then 0 else e)
         else if DECIMAL_PRECISION < e then None
         else
           (let (d, p, e) = NumberToDecimal_absorb ds front d 0 e;
                c = digit_at ds front p;
                p = p + 1
            in if 53 \<le> c then
                 (let round =
                        (if digit_at ds front (p - 1) = 53 \<and> digit_at ds front (p - 2) mod 2 = 0
                         then
                           (let (p, count) = NumberToDecimal_zeros ds front p 20
                            in \<not> (digit_at ds front p = 0 \<or> count = 0))
                         else True)
                  in if round then
                       (let d = DecAddInt32 d 1
                        in if (Hi32 d OR mid32_dec d OR low32_dec d) = 0 then
                             finish (d\<lparr>Hi32 := 0x19999999, Lo64 := 0x999999999999999A\<rparr>) (e + 1)
                           else finish d e)
                     else finish d e)
               else finish d e))"

section \<open>What the claims speak of\<close>

text \<open>
  The 96-bit quotient \<^verbatim>\<open>rgulQuo[2]:rgulQuo[1]:rgulQuo[0]\<close> as a number, and
  the specification's words for \<^verbatim>\<open>SearchScale\<close>: \<open>fits96 Q k\<close> says that
  \<open>Q\<close> times \<open>10 ^ k\<close> still fits in 96 bits, \<open>max_scale_power Q s k\<close> that
  \<open>k\<close> is the largest power in 0..19 that fits and keeps the scale \<open>s + k\<close> at
  most 28. \<open>ovfl_nat k\<close> is the 96-bit number in \<^verbatim>\<open>PowerOvfl[k]\<close>.
\<close>

definition quo96 :: "u32 list \<Rightarrow> nat" where
  "quo96 q = unat (q ! 2) * 2 ^ 64 + unat (q ! 1) * 2 ^ 32 + unat (q ! 0)"

definition fits96 :: "nat \<Rightarrow> nat \<Rightarrow> bool" where
  "fits96 Q k = (Q * 10 ^ k < 2 ^ 96)"

definition max_scale_power :: "nat \<Rightarrow> int \<Rightarrow> nat \<Rightarrow> bool" where
  "max_scale_power Q s k =
     (k \<le> 19 \<and> fits96 Q k \<and> s + int k \<le> 28 \<and>
      (\<forall>j \<in> {0..19}. fits96 Q j \<and> s + int j \<le> 28 \<longrightarrow> j \<le> k))"

definition ovfl_nat :: "nat \<Rightarrow> nat" where
  "ovfl_nat k = unat (fst (PowerOvfl ! k)) * 2 ^ 32 + unat (snd (PowerOvfl ! k))"

text \<open>
  The lower 96 bits of the buffer of \<^verbatim>\<open>ScaleResult\<close> as a number, and the
  rounding rule in the words of the specification: with \<open>d\<close> the divisor, \<open>r\<close> the
  remainder and \<open>v\<close> the quotient, round up when \<open>r > d/2\<close>, or \<open>r = d/2\<close> and
  the quotient is odd or the sticky flag is set.
\<close>

definition val96 :: "u64 list \<Rightarrow> nat" where
  "val96 b = unat (low32 (b ! 1)) * 2 ^ 64 + unat (b ! 0)"

definition rounds_up :: "nat \<Rightarrow> nat \<Rightarrow> nat \<Rightarrow> bool \<Rightarrow> bool" where
  "rounds_up d r v sticky = (d < 2 * r \<or> (2 * r = d \<and> (odd v \<or> sticky)))"

text \<open>
  The operands for which \<^verbatim>\<open>DecimalMul\<close> reaches its label
  \<^verbatim>\<open>ReturnZero\<close>: both high words are zero, the high half of the 64-by-64
  product is zero and the scales add up to more than \<open>DEC_SCALE_MAX + 19 = 47\<close>; or a
  high word is not zero and the three words of the product are all zero.
\<close>

definition Mul_ReturnZero :: "DECIMAL \<Rightarrow> DECIMAL \<Rightarrow> bool" where
  "Mul_ReturnZero pdecL pdecR =
     (if (Hi32 pdecL OR Hi32 pdecR) = 0 then
        snd (Mul64By64 (Lo64 pdecL) (Lo64 pdecR)) = 0 \<and>
        47 < uint (scale pdecL) + uint (scale pdecR)
      else
        (let rgulProd = Mul_rgulProd pdecL pdecR
         in rgulProd ! 2 = 0 \<and> rgulProd ! 1 = 0 \<and> rgulProd ! 0 = 0))"

text \<open>
  The invariants of a stored value: the scale is at most 28, the mantissa is below
  \<open>2^96\<close>, and the reserved bits of the flags word are zero, which are
  \<^verbatim>\<open>wReserved\<close> (bits 0 to 15) and the low seven bits of the sign byte (bits 24
  to 30). \<open>result_fields_ok\<close> leaves \<^verbatim>\<open>wReserved\<close> out.
\<close>

definition result_fields_ok :: "DECIMAL \<Rightarrow> bool" where
  "result_fields_ok d = (uint (scale d) \<le> 28 \<and> mantissa d < 2 ^ 96 \<and> sign d AND 0x7F = 0)"

definition decimal_invariant :: "DECIMAL \<Rightarrow> bool" where
  "decimal_invariant d = (result_fields_ok d \<and> wReserved d = 0)"

text \<open>
  How a division loop can end: with a scale in the range of the format, and with no
  error other than overflow.
\<close>

definition div_exit_ok :: "div_exit \<Rightarrow> bool" where
  "div_exit_ok ex =
     (case ex of Inl e \<Rightarrow> True | Inr (q, iScale, f) \<Rightarrow> 0 \<le> iScale \<and> iScale \<le> 28)"

definition div_exit_overflow :: "div_exit \<Rightarrow> bool" where
  "div_exit_overflow ex = (case ex of Inl e \<Rightarrow> e = DISP_E_OVERFLOW | Inr x \<Rightarrow> True)"

section \<open>Facts about the helpers\<close>

subsection \<open>Words as numbers\<close>

lemma unat_ucast_u32_u64: "unat (ucast (x :: u32) :: u64) = unat x"
proof -
  have "unat x < 2 ^ 32" using unsigned_less [of x] by simp
  then have "unat x < 2 ^ 64" by simp
  then show ?thesis by (simp add: unsigned_ucast_eq take_bit_nat_eq_self)
qed

lemma unat_push32: "unat (push_bit 32 (ucast (h :: u32)) :: u64) = unat h * 2 ^ 32"
proof -
  have "unat h < 2 ^ 32" using unsigned_less [of h] by simp
  then have b: "unat h * 2 ^ 32 < 2 ^ 64" by simp
  have "unat (push_bit 32 (ucast h) :: u64) = take_bit 64 (push_bit 32 (unat (ucast h :: u64)))"
    by (simp only: unsigned_push_bit_eq) simp
  also have "\<dots> = take_bit 64 (unat h * 2 ^ 32)"
    by (simp only: unat_ucast_u32_u64 push_bit_eq_mult)
  also have "\<dots> = unat h * 2 ^ 32" using b by (simp only: take_bit_nat_eq_self)
  finally show ?thesis .
qed

lemma make64_add: "make64 h l = push_bit 32 (ucast h) + ucast l"
  unfolding make64_def
  by (rule disjunctive_add [symmetric]) (auto simp: bit_simps dest: bit_imp_le_length)

lemma unat_make64: "unat (make64 h l) = unat h * 2 ^ 32 + unat l"
proof -
  have h: "unat h < 2 ^ 32" and l: "unat l < 2 ^ 32"
    using unsigned_less [of h] unsigned_less [of l] by simp_all
  have "unat h * 2 ^ 32 + unat l < 2 ^ 64" using h l by simp
  then have "unat (push_bit 32 (ucast h) :: u64) + unat (ucast l :: u64) < 2 ^ LENGTH(64)"
    by (simp only: unat_push32 unat_ucast_u32_u64) simp
  then have "unat (push_bit 32 (ucast h) + ucast l :: u64)
      = unat (push_bit 32 (ucast h) :: u64) + unat (ucast l :: u64)"
    by (simp only: unat_add_lem)
  then show ?thesis by (simp only: make64_add unat_push32 unat_ucast_u32_u64)
qed

lemma unat_low32: "unat (low32 v) = unat v mod 2 ^ 32"
  by (simp add: low32_def unsigned_ucast_eq take_bit_eq_mod)

lemma unat_hi32: "unat (hi32 v) = unat v div 2 ^ 32"
proof -
  have "unat v < 2 ^ 64" using unsigned_less [of v] by simp
  then have "unat v div 2 ^ 32 < 2 ^ 32" by simp
  then show ?thesis
    by (simp add: hi32_def unsigned_ucast_eq unat_drop_bit_eq drop_bit_eq_div [where ?'a = nat]
          take_bit_nat_eq_self)
qed


subsection \<open>SearchScale64 finds the largest power\<close>

lemma msb_index_bounds: "0 < n \<Longrightarrow> 2 ^ msb_index n \<le> n \<and> n < 2 ^ Suc (msb_index n)"
proof (induction n rule: msb_index.induct)
  case (1 n)
  show ?case
  proof (cases "n < 2")
    case True
    with 1(2) have "n = 1" by simp
    then show ?thesis by (simp add: msb_index.simps)
  next
    case False
    then have "0 < n div 2" by simp
    from 1(1) [OF False this] False show ?thesis
      by (subst (1 2) msb_index.simps) auto
  qed
qed

lemma less_20_cases: "(k::nat) < 20 \<Longrightarrow> k = 0 \<or> k = 1 \<or> k = 2 \<or> k = 3 \<or> k = 4 \<or> k = 5 \<or> k = 6 \<or> k = 7 \<or> k = 8 \<or> k = 9 \<or> k = 10 \<or> k = 11 \<or> k = 12 \<or> k = 13 \<or> k = 14 \<or> k = 15 \<or> k = 16 \<or> k = 17 \<or> k = 18 \<or> k = 19"
  by arith

lemma less_64_cases: "(m::nat) < 64 \<Longrightarrow> m = 0 \<or> m = 1 \<or> m = 2 \<or> m = 3 \<or> m = 4 \<or> m = 5 \<or> m = 6 \<or> m = 7 \<or> m = 8 \<or> m = 9 \<or> m = 10 \<or> m = 11 \<or> m = 12 \<or> m = 13 \<or> m = 14 \<or> m = 15 \<or> m = 16 \<or> m = 17 \<or> m = 18 \<or> m = 19 \<or> m = 20 \<or> m = 21 \<or> m = 22 \<or> m = 23 \<or> m = 24 \<or> m = 25 \<or> m = 26 \<or> m = 27 \<or> m = 28 \<or> m = 29 \<or> m = 30 \<or> m = 31 \<or> m = 32 \<or> m = 33 \<or> m = 34 \<or> m = 35 \<or> m = 36 \<or> m = 37 \<or> m = 38 \<or> m = 39 \<or> m = 40 \<or> m = 41 \<or> m = 42 \<or> m = 43 \<or> m = 44 \<or> m = 45 \<or> m = 46 \<or> m = 47 \<or> m = 48 \<or> m = 49 \<or> m = 50 \<or> m = 51 \<or> m = 52 \<or> m = 53 \<or> m = 54 \<or> m = 55 \<or> m = 56 \<or> m = 57 \<or> m = 58 \<or> m = 59 \<or> m = 60 \<or> m = 61 \<or> m = 62 \<or> m = 63"
  by arith

lemma PowerOvfl_table: "k < 20 \<Longrightarrow> ovfl_nat k = (2 ^ 96 - 1) div 10 ^ k"
  by (drule less_20_cases) (auto simp: ovfl_nat_def PowerOvfl_def)

lemma fits96_iff: "fits96 Q k \<longleftrightarrow> Q \<le> (2 ^ 96 - 1) div 10 ^ k"
proof -
  have "Q \<le> (2 ^ 96 - 1) div 10 ^ k \<longleftrightarrow> Q * 10 ^ k \<le> 2 ^ 96 - 1"
    by (rule less_eq_div_iff_mult_less_eq) simp
  then show ?thesis unfolding fits96_def by auto
qed

lemma fits96_ovfl: "k < 20 \<Longrightarrow> fits96 Q k \<longleftrightarrow> Q \<le> ovfl_nat k"
  by (simp add: fits96_iff PowerOvfl_table)

lemma fits96_mono: "fits96 Q k \<Longrightarrow> j \<le> k \<Longrightarrow> fits96 Q j"
proof -
  assume a: "fits96 Q k" and b: "j \<le> k"
  have "(10::nat) ^ j \<le> 10 ^ k" using b by (simp add: power_increasing)
  then have "Q * 10 ^ j \<le> Q * 10 ^ k" by simp
  with a show ?thesis unfolding fits96_def by linarith
qed

lemma log_estimate_below: "m < 64 \<Longrightarrow> 2 ^ (m + 33) * 10 ^ ((63 - m) * 77 div 256) \<le> (2::nat) ^ 96"
  by (drule less_64_cases) (elim disjE, simp_all)

lemma log_estimate_above: "m < 64 \<Longrightarrow> (2::nat) ^ 96 \<le> 2 ^ (m + 32) * 10 ^ ((63 - m) * 77 div 256 + 2)"
  by (drule less_64_cases) (elim disjE, simp_all)


lemma u32_bound: "unat (w :: u32) < 4294967296"
  using unsigned_less [of w, where ?'a = nat] by simp

lemma lex_compare_gt:
  fixes h Hi :: u64 and lo Lo :: u32
  shows "Hi < h \<Longrightarrow> \<not> unat h * 2 ^ 32 + unat lo \<le> unat Hi * 2 ^ 32 + unat Lo"
  using u32_bound [of lo] u32_bound [of Lo] by (simp add: word_less_nat_alt)

lemma lex_compare_lt:
  fixes h Hi :: u64 and lo Lo :: u32
  shows "h < Hi \<Longrightarrow> unat h * 2 ^ 32 + unat lo \<le> unat Hi * 2 ^ 32 + unat Lo"
  using u32_bound [of lo] u32_bound [of Lo] by (simp add: word_less_nat_alt)

lemma lex_compare_eq:
  fixes Hi :: u64 and lo Lo :: u32
  shows "unat Hi * 2 ^ 32 + unat lo \<le> unat Hi * 2 ^ 32 + unat Lo \<longleftrightarrow> \<not> Lo < lo"
  by (auto simp: word_less_nat_alt)

lemma PowerOvfl_step:
  "1 \<le> k \<Longrightarrow> k < 20 \<Longrightarrow> unat (fst (PowerOvfl ! k)) * 2 ^ 32 + (2 ^ 32 - 1) \<le> ovfl_nat (k - 1)"
  by (drule less_20_cases) (auto simp: ovfl_nat_def PowerOvfl_def)

text \<open>
  The search by bit position finds the largest power \<open>k \<le> 19\<close> for which the
  quotient times \<open>10 ^ k\<close> stays below \<open>2 ^ 96\<close>.
\<close>

lemma SearchScale_search_max:
  fixes q :: "u32 list" and h :: u64
  defines "Q \<equiv> unat h * 2 ^ 32 + unat (q ! 0)"
  shows "\<exists>k. SearchScale_search q h = int k \<and> k \<le> 19 \<and> fits96 Q k \<and>
             (k < 19 \<longrightarrow> \<not> fits96 Q (Suc k))"
proof (cases "h = 0")
  case True
  have "unat (q ! 0) < 2 ^ 32" using unsigned_less [of "q ! 0"] by simp
  then have "fits96 Q 19" using True by (simp add: fits96_def Q_def)
  then show ?thesis
    using True
    by (intro exI [of _ 19])
       (simp add: SearchScale_search_def SEARCHSCALE_MAX_SCALE_def POWER10_MAX64_def)
next
  case False
  define m where "m = msb_index (unat h)"
  define c where "c = (63 - m) * 77 div 256 + 1"
  have hpos: "0 < unat h" using False by (simp add: unat_gt_0)
  have m64: "m < 64" unfolding m_def by (rule msb_index_u64)
  have mb: "2 ^ m \<le> unat h" "unat h < 2 ^ Suc m"
    using msb_index_bounds [OF hpos] unfolding m_def by simp_all
  have c20: "1 \<le> c" "c < 20" unfolding c_def using m64 by simp_all
  have lo: "unat (q ! 0) < 2 ^ 32" using unsigned_less [of "q ! 0"] by simp
  have Qlow: "2 ^ (m + 32) \<le> Q"
  proof -
    have "2 ^ m * 2 ^ 32 \<le> unat h * (2 ^ 32 :: nat)" using mb(1) by (rule mult_le_mono1)
    then show ?thesis unfolding Q_def by (simp add: power_add)
  qed
  have Qhigh: "Q < 2 ^ (m + 33)"
  proof -
    have "Suc (unat h) \<le> 2 ^ Suc m" using mb(2) by simp
    then have "Suc (unat h) * 2 ^ 32 \<le> 2 ^ Suc m * (2 ^ 32 :: nat)" by (rule mult_le_mono1)
    then have "unat h * 2 ^ 32 + 2 ^ 32 \<le> (2 ^ (m + 33) :: nat)" by (simp add: power_add)
    then show ?thesis unfolding Q_def using lo by linarith
  qed
  have below: "fits96 Q (c - 1)"
  proof -
    have "Q * 10 ^ (c - 1) < 2 ^ (m + 33) * 10 ^ (c - 1)"
      using Qhigh by (simp add: mult_less_mono1)
    also have "\<dots> \<le> 2 ^ 96" using log_estimate_below [OF m64] by (simp add: c_def)
    finally show ?thesis by (simp add: fits96_def)
  qed
  have above: "\<not> fits96 Q (Suc c)"
  proof -
    have "(2::nat) ^ 96 \<le> 2 ^ (m + 32) * 10 ^ (Suc c)"
      using log_estimate_above [OF m64] by (simp add: c_def)
    also have "\<dots> \<le> Q * 10 ^ (Suc c)" using Qlow by (rule mult_le_mono1)
    finally show ?thesis by (simp add: fits96_def)
  qed
  have cint: "(63 - int m) * 77 div 256 + 1 = int c"
  proof -
    have "int (63 - m) = 63 - int m" using m64 by simp
    then show ?thesis unfolding c_def by (simp add: zdiv_int [symmetric] flip: of_nat_mult)
  qed
  have unfolded: "SearchScale_search q h =
      (if fst (PowerOvfl ! nat ((63 - int m) * 77 div 256 + 1)) < h
       then (63 - int m) * 77 div 256 + 1 - 1
       else if h = fst (PowerOvfl ! nat ((63 - int m) * 77 div 256 + 1))
       then SearchScale_UpperEq q ((63 - int m) * 77 div 256 + 1)
       else (63 - int m) * 77 div 256 + 1)"
    using False by (simp add: SearchScale_search_def BitScanMsb64_def Let_def m_def)
  have search: "SearchScale_search q h =
      (if fst (PowerOvfl ! c) < h then int c - 1
       else if h = fst (PowerOvfl ! c)
       then (if snd (PowerOvfl ! c) < q ! 0 then int c - 1 else int c)
       else int c)"
    unfolding unfolded cint SearchScale_UpperEq_def by (simp only: nat_int)
  have f: "fits96 Q c \<longleftrightarrow> Q \<le> ovfl_nat c" using c20 by (simp add: fits96_ovfl)
  have code: "SearchScale_search q h = (if fits96 Q c then int c else int c - 1)"
  proof (cases "fst (PowerOvfl ! c) < h")
    case True
    then have "\<not> fits96 Q c"
      unfolding f unfolding ovfl_nat_def Q_def by (rule lex_compare_gt)
    then show ?thesis unfolding search using True by simp
  next
    case nlt: False
    show ?thesis
    proof (cases "h = fst (PowerOvfl ! c)")
      case True
      have "fits96 Q c \<longleftrightarrow> \<not> snd (PowerOvfl ! c) < q ! 0"
        unfolding f unfolding ovfl_nat_def Q_def True by (rule lex_compare_eq)
      then show ?thesis unfolding search using True by simp
    next
      case False
      then have "h < fst (PowerOvfl ! c)" using nlt by auto
      then have "fits96 Q c"
        unfolding f unfolding ovfl_nat_def Q_def by (rule lex_compare_lt)
      then show ?thesis unfolding search using False nlt by simp
    qed
  qed
  show ?thesis
  proof (cases "fits96 Q c")
    case True
    then show ?thesis using code c20 above by (intro exI [of _ c]) simp
  next
    case False
    have "int c - 1 = int (c - 1)" using c20 by simp
    moreover have "Suc (c - 1) = c" using c20 by simp
    ultimately show ?thesis using code c20 below False by (intro exI [of _ "c - 1"]) simp
  qed
qed


lemma max_scale_powerI:
  "k \<le> 19 \<Longrightarrow> fits96 Q k \<Longrightarrow> s + int k \<le> 28 \<Longrightarrow>
   (\<And>j. j \<le> 19 \<Longrightarrow> fits96 Q j \<Longrightarrow> s + int j \<le> 28 \<Longrightarrow> j \<le> k) \<Longrightarrow>
   max_scale_power Q s k"
  by (auto simp: max_scale_power_def)

lemma quo96_bound: "quo96 q < 2 ^ 96"
  using u32_bound [of "q ! 0"] u32_bound [of "q ! 1"] u32_bound [of "q ! 2"]
  by (simp add: quo96_def)

text \<open>
  \<^verbatim>\<open>SearchScale64\<close> up to the label \<^verbatim>\<open>HaveScale\<close>: the power found is the
  largest \<open>k \<le> 19\<close> that keeps the quotient in 96 bits and the scale at most 28.
\<close>

lemma SearchScale64_max:
  assumes s28: "s \<le> 28"
  shows "\<exists>k. max_scale_power (quo96 q) s k \<and> SearchScale64 q s = SearchScale_HaveScale (int k) s"
proof -
  define h :: u64 where "h = push_bit 32 (ucast (q ! 2)) + ucast (q ! 1)"
  define Q where "Q = quo96 q"
  have uh: "unat h = unat (q ! 2) * 2 ^ 32 + unat (q ! 1)"
    unfolding h_def make64_add [symmetric] by (rule unat_make64)
  have Qh: "Q = unat h * 2 ^ 32 + unat (q ! 0)"
    by (simp add: Q_def quo96_def uh)
  obtain r where r: "SearchScale_search q h = int r" "r \<le> 19" "fits96 Q r"
      "r < 19 \<longrightarrow> \<not> fits96 Q (Suc r)"
    using SearchScale_search_max [of q h] unfolding Qh by blast
  have rmax: "j \<le> r" if "fits96 Q j" "j \<le> 19" for j
  proof (rule ccontr)
    assume "\<not> j \<le> r"
    then have "Suc r \<le> j" "r < 19" using that(2) by simp_all
    then show False using fits96_mono [OF that(1), of "Suc r"] r(4) by simp
  qed
  have fits0: "fits96 Q 0" using quo96_bound [of q] by (simp add: fits96_def Q_def)
  show ?thesis
  proof (cases "28 \<le> s \<or> OVFL_MAX32_1_HI < q ! 2")
    case True
    have code: "SearchScale64 q s = SearchScale_HaveScale (int 0) s"
      using True by (auto simp: SearchScale64_def DEC_SCALE_MAX_def)
    have "max_scale_power Q s 0"
    proof (rule max_scale_powerI)
      show "s + int 0 \<le> 28" using s28 by simp
      fix j assume j: "j \<le> 19" "fits96 Q j" "s + int j \<le> 28"
      show "j \<le> 0"
      proof (cases "28 \<le> s")
        case True
        then show ?thesis using j(3) by simp
      next
        case False
        then have "OVFL_MAX32_1_HI < q ! 2" using \<open>28 \<le> s \<or> OVFL_MAX32_1_HI < q ! 2\<close> by simp
        then have "429496730 \<le> unat (q ! 2)"
          by (simp add: OVFL_MAX32_1_HI_def word_less_nat_alt)
        then have "429496730 * 2 ^ 64 \<le> unat (q ! 2) * (2 ^ 64 :: nat)"
          by (rule mult_le_mono1)
        then have "\<not> fits96 Q 1" by (simp add: fits96_def Q_def quo96_def)
        then show ?thesis using fits96_mono [OF j(2), of 1] by (cases j) auto
      qed
    qed (use fits0 in simp_all)
    then show ?thesis using code unfolding Q_def by blast
  next
    case nA: False
    then have s27: "s < 28" and hi: "\<not> OVFL_MAX32_1_HI < q ! 2" by simp_all
    show ?thesis
    proof (cases "9 < s")
      case False
      have code: "SearchScale64 q s = SearchScale_HaveScale (int r) s"
        using nA False
        by (simp add: SearchScale64_def DEC_SCALE_MAX_def SEARCHSCALE_MAX_SCALE_def
              POWER10_MAX64_def Let_def h_def [symmetric] r(1) del: One_nat_def)
      have "max_scale_power Q s r"
        using r(2,3) False rmax by (intro max_scale_powerI) auto
      then show ?thesis using code unfolding Q_def by blast
    next
      case True
      define k0 where "k0 = nat (28 - s)"
      have k0: "1 \<le> k0" "k0 < 20" "int k0 = 28 - s" "k0 \<le> 19"
        using True s27 by (simp_all add: k0_def)
      have f: "fits96 Q k0 \<longleftrightarrow> Q \<le> ovfl_nat k0" using k0 by (simp add: fits96_ovfl)
      have unfolded: "SearchScale64 q s =
          (if h < fst (PowerOvfl ! k0) then SearchScale_HaveScale (28 - s) s
           else if h = fst (PowerOvfl ! k0)
           then SearchScale_HaveScale (SearchScale_UpperEq q (28 - s)) s
           else SearchScale_HaveScale (SearchScale_search q h) s)"
        using nA True
        by (simp add: SearchScale64_def DEC_SCALE_MAX_def SEARCHSCALE_MAX_SCALE_def
              POWER10_MAX64_def Let_def h_def [symmetric] k0_def del: One_nat_def)
      show ?thesis
      proof (cases "h < fst (PowerOvfl ! k0)")
        case True
        have "fits96 Q k0"
          unfolding f unfolding ovfl_nat_def Qh using True by (rule lex_compare_lt)
        then have "max_scale_power Q s k0"
          using k0 by (intro max_scale_powerI) auto
        moreover have "SearchScale64 q s = SearchScale_HaveScale (int k0) s"
          unfolding unfolded k0(3) using True by simp
        ultimately show ?thesis unfolding Q_def by blast
      next
        case nlt: False
        show ?thesis
        proof (cases "h = fst (PowerOvfl ! k0)")
          case True
          have fe: "fits96 Q k0 \<longleftrightarrow> \<not> snd (PowerOvfl ! k0) < q ! 0"
            unfolding f unfolding ovfl_nat_def Qh True by (rule lex_compare_eq)
          have code: "SearchScale64 q s =
              SearchScale_HaveScale (if snd (PowerOvfl ! k0) < q ! 0 then int k0 - 1 else int k0) s"
            unfolding unfolded SearchScale_UpperEq_def k0(3) [symmetric] using True
            by (simp only: nat_int) simp
          show ?thesis
          proof (cases "snd (PowerOvfl ! k0) < q ! 0")
            case False
            then have "fits96 Q k0" using fe by simp
            then have "max_scale_power Q s k0"
              using k0 by (intro max_scale_powerI) auto
            moreover have "SearchScale64 q s = SearchScale_HaveScale (int k0) s"
              unfolding code using False by simp
            ultimately show ?thesis unfolding Q_def by blast
          next
            case True
            then have nf: "\<not> fits96 Q k0" using fe by simp
            have "Q \<le> unat (fst (PowerOvfl ! k0)) * 2 ^ 32 + (2 ^ 32 - 1)"
              unfolding Qh \<open>h = fst (PowerOvfl ! k0)\<close> using u32_bound [of "q ! 0"] by simp
            then have "Q \<le> ovfl_nat (k0 - 1)"
              using PowerOvfl_step [OF k0(1,2)] by linarith
            then have fm: "fits96 Q (k0 - 1)" using k0 by (simp add: fits96_ovfl)
            have "max_scale_power Q s (k0 - 1)"
            proof (rule max_scale_powerI)
              show "k0 - 1 \<le> 19" using k0(4) by simp
              show "fits96 Q (k0 - 1)" by (rule fm)
              show "s + int (k0 - 1) \<le> 28" using k0(1,3) by linarith
              fix j assume j: "j \<le> 19" "fits96 Q j" "s + int j \<le> 28"
              have "j \<noteq> k0" using nf j(2) by auto
              moreover have "j \<le> k0" using j(3) k0(3) by linarith
              ultimately show "j \<le> k0 - 1" by linarith
            qed
            moreover have "SearchScale64 q s = SearchScale_HaveScale (int (k0 - 1)) s"
            proof -
              have e: "int (k0 - 1) = int k0 - 1" using k0(1) by linarith
              show ?thesis unfolding code e using True by (simp only: if_True)
            qed
            ultimately show ?thesis unfolding Q_def by blast
          qed
        next
          case False
          then have gt: "fst (PowerOvfl ! k0) < h" using nlt by auto
          have nf: "\<not> fits96 Q k0"
            unfolding f unfolding ovfl_nat_def Qh using gt by (rule lex_compare_gt)
          have "r < k0"
          proof (rule ccontr)
            assume "\<not> r < k0"
            then show False using fits96_mono [OF r(3), of k0] nf by simp
          qed
          then have "max_scale_power Q s r"
            using r(2,3) k0 rmax by (intro max_scale_powerI) auto
          moreover have "SearchScale64 q s = SearchScale_HaveScale (int r) s"
            unfolding unfolded using False nlt r(1) by simp
          ultimately show ?thesis unfolding Q_def by blast
        qed
      qed
    qed
  qed
qed

lemma uint_scale_of_int: "0 \<le> s \<Longrightarrow> s \<le> 28 \<Longrightarrow> uint (word_of_int s :: u8) = s"
  by (simp add: uint_word_of_int)

subsection \<open>ScaleResult leaves a scale of the format or reports overflow\<close>

lemma ScaleResult_loop_range_aux:
  assumes "ScaleResult_loop r h s n st rem = Some y"
  shows "s \<le> 28 \<longrightarrow> fst y = - 1 \<or> (0 \<le> fst y \<and> fst y \<le> 28)"
proof (rule ScaleResult_loop.raw_induct
    [where P = "\<lambda>r h s n st rem y. s \<le> 28 \<longrightarrow> fst y = - 1 \<or> (0 \<le> fst y \<and> fst y \<le> 28)",
     OF _ assms], goal_cases)
  case (1 f r h s n st rem y)
  note hyps = 1
  obtain rem' r' h' pwr n' where rs: "ReduceScale r h n = (rem', r', h', pwr, n')"
    by (cases "ReduceScale r h n") auto
  obtain carry r'' where ad: "Add96By32_u64 r' 1 = (carry, r'')"
    by (cases "Add96By32_u64 r' 1") auto
  have body:
    "(if 0 < n' then f r' h' s n' (st OR rem) rem'
      else if 1 < h' \<or> hi32 (r' ! 1) \<noteq> 0 then f r' h' (s - 1) 1 (st OR rem) rem'
      else if ScaleResult_roundup (drop_bit 1 pwr) rem' r' (st OR rem) then
        (if carry then f (r''[1 := set_hi32 (r'' ! 1) 1]) h' (s - 1) 1 0 0
         else if s < 0 then Some (- 1, r'') else Some (s, r''))
      else if s < 0 then Some (- 1, r') else Some (s, r')) = Some y"
    using hyps(2) unfolding Let_def rs prod.case ad .
  consider (a) "f r' h' s n' (st OR rem) rem' = Some y"
    | (b) "f r' h' (s - 1) 1 (st OR rem) rem' = Some y"
    | (c) "f (r''[1 := set_hi32 (r'' ! 1) 1]) h' (s - 1) 1 0 0 = Some y"
    | (d) "fst y = - 1" | (e) "fst y = s" "\<not> s < 0"
    using body by (auto split: if_splits)
  then show ?case
  proof cases
    case a
    then show ?thesis using hyps(1) by blast
  next
    case b
    show ?thesis using hyps(1) [OF b] by simp
  next
    case c
    show ?thesis using hyps(1) [OF c] by simp
  next
    case d
    then show ?thesis by simp
  next
    case e
    then show ?thesis by simp
  qed
qed

lemma ScaleResult_loop_range:
  assumes "ScaleResult_loop r h s n st rem = Some y" and "s \<le> 28"
  shows "fst y = - 1 \<or> (0 \<le> fst y \<and> fst y \<le> 28)"
  using ScaleResult_loop_range_aux [OF assms(1)] assms(2) by blast

lemma ScaleResult_scale_range:
  assumes "ScaleResult_scale r h s n = Some y" and "0 \<le> s" and "n \<le> s"
  shows "fst y = - 1 \<or> (0 \<le> fst y \<and> fst y \<le> 28)"
proof -
  define m where "m = (if n < s - DEC_SCALE_MAX then s - DEC_SCALE_MAX else n)"
  have m: "s - m \<le> 28" "m \<le> s" using assms(2,3) by (auto simp: m_def DEC_SCALE_MAX_def)
  show ?thesis
  proof (cases "m = 0")
    case True
    then have "y = (s, r)" using assms(1) by (simp add: ScaleResult_scale_def m_def [symmetric])
    then show ?thesis using m True assms(2) by simp
  next
    case False
    then have "ScaleResult_loop r h (s - m) m 0 0 = Some y"
      using assms(1) by (simp add: ScaleResult_scale_def m_def [symmetric])
    then show ?thesis using ScaleResult_loop_range m(1) by blast
  qed
qed

lemma ScaleResult_range:
  assumes "ScaleResult r h s = Some y" and "0 \<le> s"
  shows "fst y = - 1 \<or> (0 \<le> fst y \<and> fst y \<le> 28)"
proof -
  obtain found msb where b: "BitScanMsb64 (r ! nat h) = (found, msb)"
    by (cases "BitScanMsb64 (r ! nat h)") auto
  define n where "n = (h * 64 + int msb - 96) * 77 div 256 + 1"
  have body:
    "(if 0 \<le> h * 64 + int msb - 96 then
        (if s < n then Some (- 1, r) else ScaleResult_scale r h s n)
      else ScaleResult_scale r h s 0) = Some y"
    using assms(1) unfolding ScaleResult_def b prod.case Let_def n_def .
  show ?thesis
  proof (cases "0 \<le> h * 64 + int msb - 96")
    case False
    then have "ScaleResult_scale r h s 0 = Some y" using body by (simp only: if_False)
    then show ?thesis using ScaleResult_scale_range assms(2) by blast
  next
    case True
    show ?thesis
    proof (cases "s < n")
      case t: True
      then have "Some (- 1, r) = Some y" using body True by (simp only: if_True)
      then show ?thesis by auto
    next
      case f: False
      then have c: "ScaleResult_scale r h s n = Some y"
        using body True by (simp only: if_True if_False)
      have "n \<le> s" using f by simp
      then show ?thesis using ScaleResult_scale_range [OF c assms(2)] by blast
    qed
  qed
qed

subsection \<open>What DecimalMul returns\<close>

lemma Mul_finish_result:
  assumes "0 \<le> s" and "s \<le> 28" and "Mul_finish L R p s = (h, r)"
  shows "h = NOERROR \<and> sign r = sign L XOR sign R \<and> uint (scale r) \<le> 28 \<and>
         wReserved r = wReserved p"
  using assms by (auto simp: Mul_finish_def uint_scale_of_int)

lemma Mul_scaled_result:
  assumes "(case ScaleResult n hi s of
              None \<Rightarrow> None
            | Some (iScale, t) \<Rightarrow>
                if iScale = - 1 then Some (DISP_E_OVERFLOW, res)
                else Some (Mul_finish L R (res\<lparr>Lo64 := t ! 0, Hi32 := ucast (t ! 1)\<rparr>) iScale))
           = Some (h, r)"
    and "0 \<le> s"
  shows "(h = DISP_E_OVERFLOW \<and> r = res) \<or>
         (h = NOERROR \<and> sign r = sign L XOR sign R \<and> uint (scale r) \<le> 28 \<and>
          wReserved r = wReserved res)"
proof (cases "ScaleResult n hi s")
  case None
  then show ?thesis using assms(1) by simp
next
  case (Some y)
  obtain s' t where y: "y = (s', t)" by (cases y) auto
  from ScaleResult_range [OF Some assms(2)] y
  have rng: "s' = - 1 \<or> (0 \<le> s' \<and> s' \<le> 28)" by simp
  show ?thesis
  proof (cases "s' = - 1")
    case True
    then show ?thesis using assms(1) Some y by simp
  next
    case False
    then have "Mul_finish L R (res\<lparr>Lo64 := t ! 0, Hi32 := ucast (t ! 1)\<rparr>) s' = (h, r)"
      using assms(1) Some y by simp
    from Mul_finish_result [OF _ _ this] rng False show ?thesis by simp
  qed
qed

lemma DecimalMul_result:
  assumes "DecimalMul L R res = Some (h, r)"
  shows "(h = NOERROR \<and> r = DECIMAL_SETZERO res) \<or> (h = DISP_E_OVERFLOW \<and> r = res) \<or>
         (h = NOERROR \<and> sign r = sign L XOR sign R \<and> uint (scale r) \<le> 28 \<and>
          wReserved r = wReserved res)"
proof -
  have s0: "0 \<le> uint (scale L) + uint (scale R)" by simp
  show ?thesis
  proof (cases "(Hi32 L OR Hi32 R) = 0")
    case True
    obtain lo hi where m: "Mul64By64 (Lo64 L) (Lo64 R) = (lo, hi)"
      by (cases "Mul64By64 (Lo64 L) (Lo64 R)") auto
    show ?thesis
    proof (cases "hi = 0")
      case z: True
      have "uint (scale L + scale R) \<le> uint (scale L) + uint (scale R)"
        by (rule uint_add_le)
      then show ?thesis
        using assms True m z
        by (auto simp: DecimalMul_def Let_def case_prod_beta Mul_finish_def DEC_SCALE_MAX_def
              uint_scale_of_int split: if_splits)
    next
      case nz: False
      show ?thesis
        using assms True m nz Mul_scaled_result [where n = "[lo, hi]" and hi = 1 and res = res and L = L and R = R
            and h = h and r = r, OF _ s0]
        by (simp add: DecimalMul_def)
    qed
  next
    case False
    define prod where "prod = Mul_rgulProd L R"
    have body: "(if Mul_iHiProd prod 2 < 0 then Some (NOERROR, DECIMAL_SETZERO res)
        else (case ScaleResult prod (Mul_iHiProd prod 2) (uint (scale L) + uint (scale R)) of
                None \<Rightarrow> None
              | Some (iScale, t) \<Rightarrow>
                  if iScale = - 1 then Some (DISP_E_OVERFLOW, res)
                  else Some (Mul_finish L R (res\<lparr>Lo64 := t ! 0, Hi32 := ucast (t ! 1)\<rparr>) iScale)))
        = Some (h, r)"
      using assms False
      by (auto simp: DecimalMul_def prod_def Let_def split: if_splits)
    show ?thesis
    proof (cases "Mul_iHiProd prod 2 < 0")
      case True
      then show ?thesis using body by simp
    next
      case f: False
      then show ?thesis
        using body Mul_scaled_result [where n = prod and hi = "Mul_iHiProd prod 2" and res = res
            and L = L and R = R and h = h and r = r, OF _ s0]
        by simp
    qed
  qed
qed

lemma Mul_iHiProd_negative:
  "Mul_iHiProd rgulProd 2 < 0 \<longleftrightarrow> rgulProd ! 2 = 0 \<and> rgulProd ! 1 = 0 \<and> rgulProd ! 0 = 0"
  by (simp add: Mul_iHiProd.simps [of _ 2] Mul_iHiProd.simps [of _ 1] Mul_iHiProd.simps [of _ 0])

lemma DecimalMul_ReturnZero:
  assumes "Mul_ReturnZero L R"
  shows "DecimalMul L R res = Some (NOERROR, DECIMAL_SETZERO res)"
proof (cases "(Hi32 L OR Hi32 R) = 0")
  case True
  then have "snd (Mul64By64 (Lo64 L) (Lo64 R)) = 0" "47 < uint (scale L) + uint (scale R)"
    using assms by (simp_all add: Mul_ReturnZero_def)
  then show ?thesis
    using True by (simp add: DecimalMul_def Let_def case_prod_beta DEC_SCALE_MAX_def)
next
  case False
  then have "Mul_iHiProd (Mul_rgulProd L R) 2 < 0"
    using assms by (simp add: Mul_ReturnZero_def Mul_iHiProd_negative Let_def)
  then show ?thesis
    using False by (simp add: DecimalMul_def Let_def)
qed

lemma DecimalMul_sign:
  assumes "\<not> Mul_ReturnZero L R" and "DecimalMul L R res = Some (NOERROR, r)"
  shows "sign r = sign L XOR sign R"
proof -
  have s0: "0 \<le> uint (scale L) + uint (scale R)" by simp
  show ?thesis
  proof (cases "(Hi32 L OR Hi32 R) = 0")
    case True
    obtain lo hi where m: "Mul64By64 (Lo64 L) (Lo64 R) = (lo, hi)"
      by (cases "Mul64By64 (Lo64 L) (Lo64 R)") auto
    show ?thesis
    proof (cases "hi = 0")
      case z: True
      then have "\<not> 47 < uint (scale L) + uint (scale R)"
        using assms(1) True m by (simp add: Mul_ReturnZero_def)
      then show ?thesis
        using assms(2) True m z
        by (auto simp: DecimalMul_def Let_def case_prod_beta Mul_finish_def DEC_SCALE_MAX_def
              split: if_splits)
    next
      case nz: False
      show ?thesis
        using assms(2) True m nz
          Mul_scaled_result [where n = "[lo, hi]" and hi = 1 and res = res and L = L and R = R
            and h = NOERROR and r = r, OF _ s0]
        by (simp add: DecimalMul_def)
    qed
  next
    case False
    define prod where "prod = Mul_rgulProd L R"
    have nz: "\<not> Mul_iHiProd prod 2 < 0"
      using assms(1) False by (simp add: Mul_ReturnZero_def Mul_iHiProd_negative Let_def prod_def)
    have "(case ScaleResult prod (Mul_iHiProd prod 2) (uint (scale L) + uint (scale R)) of
                None \<Rightarrow> None
              | Some (iScale, t) \<Rightarrow>
                  if iScale = - 1 then Some (DISP_E_OVERFLOW, res)
                  else Some (Mul_finish L R (res\<lparr>Lo64 := t ! 0, Hi32 := ucast (t ! 1)\<rparr>) iScale))
        = Some (NOERROR, r)"
      using assms(2) False nz
      by (auto simp: DecimalMul_def prod_def Let_def split: if_splits)
    from Mul_scaled_result [OF this s0] show ?thesis by simp
  qed
qed

subsection \<open>What DecimalAddSub returns\<close>

text \<open>
  The bits of the sign byte below \<^verbatim>\<open>DECIMAL_NEG\<close> are the reserved bits 24 to 30
  of the flags word; the operations toggle the top bit only.
\<close>

lemma xor_and_7F: "((x::u8) XOR y) AND 0x7F = (x AND 0x7F) XOR (y AND 0x7F)"
  by (simp add: bit.conj_xor_distrib2)

lemma NEG_and_7F: "DECIMAL_NEG AND 0x7F = 0"
  by (simp add: DECIMAL_NEG_def)

lemma and_NEG_and_7F: "(x AND DECIMAL_NEG) AND 0x7F = 0"
  by (simp add: DECIMAL_NEG_def and.assoc)

lemma SignFlip_fields:
  "wReserved (SignFlip d) = wReserved d \<and> scale (SignFlip d) = scale d \<and>
   sign (SignFlip d) AND 0x7F = sign d AND 0x7F"
  by (simp add: SignFlip_def Let_def xor_and_7F NEG_and_7F)

lemma Add96By64_dec_fields:
  "wReserved (snd (Add96By64_dec d v)) = wReserved d \<and> scale (snd (Add96By64_dec d v)) = scale d \<and>
   sign (snd (Add96By64_dec d v)) = sign d"
  by (simp add: Add96By64_dec_def Let_def case_prod_beta)

lemma uint_scale_pred:
  assumes "(x::u8) \<noteq> 0"
  shows "uint (x - 1) \<le> uint x"
proof -
  have "uint x \<noteq> 0" using assms by (simp add: uint_0_iff)
  moreover have "0 \<le> uint x" by (rule uint_nonnegative)
  ultimately have "1 \<le> uint x" by linarith
  then have "uint (1::u8) \<le> uint x" by simp
  then have "uint (x - 1) = uint x - uint (1::u8)" by (rule uint_sub_lem [THEN iffD1])
  then show ?thesis by simp
qed

lemma scale_not_overflow:
  assumes "0 \<le> s" and "s \<le> 28"
  shows "(word_of_int s :: u8) \<noteq> word_of_int (- 1)"
proof
  assume "word_of_int s = (word_of_int (- 1) :: u8)"
  then have "uint (word_of_int s :: u8) = uint (word_of_int (- 1) :: u8)" by simp
  then show False
    using assms by (simp add: uint_word_of_int unsigned_minus_1_eq_mask mask_eq_exp_minus_1)
qed

lemma AlignedAdd_result:
  assumes "AlignedAdd L R res b = (h, r)"
  shows "h \<noteq> DISP_E_DIVBYZERO \<and> wReserved r = wReserved res \<and>
         sign r AND 0x7F = sign res AND 0x7F \<and> uint (scale r) \<le> uint (scale res)"
  using assms uint_scale_pred [of "scale res"]
  by (auto simp: AlignedAdd_def Let_def case_prod_beta SignFlip_fields Add96By64_dec_fields
        split: if_splits)

lemma AddSub_wide_op_fields:
  assumes "AddSub_wide_op n hi R res b = (flip, n', hi', res')"
  shows "wReserved res' = wReserved res \<and> scale res' = scale res \<and> sign res' = sign res"
  using assms
  by (auto simp: AddSub_wide_op_def Let_def case_prod_beta split: if_splits)

lemma AddSub_wide_result:
  assumes "AddSub_wide n hi R res b = Some (h, r)"
  shows "h \<noteq> DISP_E_DIVBYZERO \<and> wReserved r = wReserved res \<and>
         sign r AND 0x7F = sign res AND 0x7F \<and>
         (h = NOERROR \<longrightarrow> uint (scale res) \<le> 28 \<longrightarrow> uint (scale r) \<le> 28)"
proof -
  obtain flip n' hi' res' where op: "AddSub_wide_op n hi R res b = (flip, n', hi', res')"
    by (cases "AddSub_wide_op n hi R res b") auto
  note f = AddSub_wide_op_fields [OF op]
  show ?thesis
  proof (cases flip)
    case True
    then have "h = NOERROR" "r = SignFlip res'"
      using assms op by (simp_all add: AddSub_wide_def)
    then show ?thesis using f by (simp add: SignFlip_fields)
  next
    case nf: False
    show ?thesis
    proof (cases "1 < hi' \<or> (hi' = 1 \<and> \<not> FitsIn32Bit (n' ! 1))")
      case False
      then have "h = NOERROR" "r = res'"
        using assms op nf by (auto simp: AddSub_wide_def)
      then show ?thesis using f by simp
    next
      case True
      then have body:
        "(case ScaleResult (n'[0 := Lo64 res']) hi' (uint (scale res')) of
            None \<Rightarrow> None
          | Some (iScale, rgullNum) \<Rightarrow>
              (let pdecRes = res'\<lparr>scale := of_int iScale\<rparr>
               in if scale pdecRes = of_int (- 1) then Some (DISP_E_OVERFLOW, pdecRes)
                  else Some (NOERROR,
                         pdecRes\<lparr>Lo64 := rgullNum ! 0, Hi32 := ucast (rgullNum ! 1)\<rparr>)))
         = Some (h, r)"
        using assms op nf by (auto simp: AddSub_wide_def Let_def)
      show ?thesis
      proof (cases "ScaleResult (n'[0 := Lo64 res']) hi' (uint (scale res'))")
        case None
        then show ?thesis using body by simp
      next
        case (Some y)
        obtain s' t where y: "y = (s', t)" by (cases y) auto
        from ScaleResult_range [OF Some] y
        have rng: "s' = - 1 \<or> (0 \<le> s' \<and> s' \<le> 28)" by simp
        show ?thesis
        proof (cases "s' = - 1")
          case True
          then show ?thesis using body Some y f by (auto simp: Let_def)
        next
          case False
          then have s: "0 \<le> s'" "s' \<le> 28" using rng by auto
          then show ?thesis
            using body Some y f scale_not_overflow [OF s]
            by (auto simp: Let_def uint_scale_of_int)
        qed
      qed
    qed
  qed
qed

lemma AddSub_scaled_result:
  assumes "AddSub_scaled L R res b s = Some (h, r)" and "b AND 0x7F = 0"
  shows "h \<noteq> DISP_E_DIVBYZERO \<and> wReserved r = wReserved res \<and>
         sign r AND 0x7F = sign res AND 0x7F \<and>
         (h = NOERROR \<longrightarrow> uint (scale res) \<le> 28 \<longrightarrow> uint (scale r) \<le> 28)"
proof (cases "s \<le> POWER10_MAX64")
  case True
  define n where "n = [fst (Mul64By64 (Lo64 L) (rgulPower10_64 ! nat s)),
     snd (AddCarry64 False (fst (Mul64By64 (ucast (Hi32 L)) (rgulPower10_64 ! nat s)))
            (snd (Mul64By64 (Lo64 L) (rgulPower10_64 ! nat s)))),
     snd (AddCarry64
            (fst (AddCarry64 False (fst (Mul64By64 (ucast (Hi32 L)) (rgulPower10_64 ! nat s)))
                   (snd (Mul64By64 (Lo64 L) (rgulPower10_64 ! nat s)))))
            (snd (Mul64By64 (ucast (Hi32 L)) (rgulPower10_64 ! nat s))) 0)]"
  have e: "AddSub_scaled L R res b s =
    (if n ! 2 \<noteq> 0 then AddSub_wide n 2 R res b
     else if FitsIn32Bit (n ! 1) then
       Some (AlignedAdd (L\<lparr>Lo64 := n ! 0, Hi32 := ucast (n ! 1)\<rparr>) R res b)
     else AddSub_wide n 1 R res b)"
    using True unfolding AddSub_scaled_def Let_def case_prod_beta n_def by (simp only: if_True)
  show ?thesis
  proof (cases "n ! 2 \<noteq> 0")
    case t: True
    then have "AddSub_wide n 2 R res b = Some (h, r)" using assms(1) e by simp
    then show ?thesis by (rule AddSub_wide_result)
  next
    case f: False
    show ?thesis
    proof (cases "FitsIn32Bit (n ! 1)")
      case True
      then have "AlignedAdd (L\<lparr>Lo64 := n ! 0, Hi32 := ucast (n ! 1)\<rparr>) R res b = (h, r)"
        using assms(1) e f by simp
      from AlignedAdd_result [OF this] show ?thesis by auto
    next
      case False
      then have "AddSub_wide n 1 R res b = Some (h, r)" using assms(1) e f by simp
      then show ?thesis by (rule AddSub_wide_result)
    qed
  qed
next
  case False
  have e: "AddSub_scaled L R res b s =
    (if Hi32 L = 0 \<and> Lo64 L = 0 then
       Some (NOERROR, res\<lparr>Lo64 := Lo64 R, Hi32 := Hi32 R, sign := sign res XOR b\<rparr>)
     else AddSub_wide
            (fst (AddSub_scale_loop [Lo64 L, ucast (Hi32 L), 0] (if Hi32 L = 0 then 0 else 1) s))
            (snd (AddSub_scale_loop [Lo64 L, ucast (Hi32 L), 0] (if Hi32 L = 0 then 0 else 1) s))
            R res b)"
    using False unfolding AddSub_scaled_def Let_def case_prod_beta by (simp only: if_False)
  show ?thesis
  proof (cases "Hi32 L = 0 \<and> Lo64 L = 0")
    case True
    then have "h = NOERROR" "r = res\<lparr>Lo64 := Lo64 R, Hi32 := Hi32 R, sign := sign res XOR b\<rparr>"
      using assms(1) e by simp_all
    then show ?thesis using assms(2) by (simp add: xor_and_7F)
  next
    case f: False
    then have "AddSub_wide
            (fst (AddSub_scale_loop [Lo64 L, ucast (Hi32 L), 0] (if Hi32 L = 0 then 0 else 1) s))
            (snd (AddSub_scale_loop [Lo64 L, ucast (Hi32 L), 0] (if Hi32 L = 0 then 0 else 1) s))
            R res b = Some (h, r)"
      using assms(1) unfolding e by (simp only: if_False)
    then show ?thesis by (rule AddSub_wide_result)
  qed
qed

lemma DecimalAddSub_result:
  assumes "DecimalAddSub L R res b = Some (h, r)" and "b AND 0x7F = 0"
  shows "h \<noteq> DISP_E_DIVBYZERO \<and> wReserved r = wReserved res \<and>
         sign r AND 0x7F = sign L AND 0x7F \<and>
         (h = NOERROR \<longrightarrow> uint (scale L) \<le> 28 \<longrightarrow> uint (scale R) \<le> 28 \<longrightarrow>
            uint (scale r) \<le> 28)"
proof -
  define b' where "b' = b XOR ((sign R XOR sign L) AND DECIMAL_NEG)"
  have b': "b' AND 0x7F = 0"
    using assms(2) by (simp add: b'_def xor_and_7F and_NEG_and_7F)
  consider (eq) "AlignedAdd L R (res\<lparr>scale := scale L, sign := sign L\<rparr>) b' = (h, r)"
    | (lt) s where
        "AddSub_scaled R L (res\<lparr>scale := scale L, sign := sign L XOR b'\<rparr>) b' s = Some (h, r)"
    | (gt) s where
        "AddSub_scaled L R (res\<lparr>scale := scale R, sign := sign L\<rparr>) b' s = Some (h, r)"
    using assms(1)
    by (auto simp: DecimalAddSub_def Let_def b'_def split: if_splits)
  then show ?thesis
  proof cases
    case eq
    from AlignedAdd_result [OF eq] show ?thesis by auto
  next
    case lt
    from AddSub_scaled_result [OF lt b'] b' show ?thesis by (auto simp: xor_and_7F)
  next
    case gt
    from AddSub_scaled_result [OF gt b'] show ?thesis by auto
  qed
qed

subsection \<open>The division loops\<close>

lemma SearchScale64_result:
  assumes "s \<le> 28"
  shows "SearchScale64 q s = - 1 \<or>
         (0 \<le> SearchScale64 q s \<and> SearchScale64 q s + s \<le> 28 \<and> (SearchScale64 q s = 0 \<longrightarrow> 0 \<le> s))"
proof -
  obtain k where k: "max_scale_power (quo96 q) s k"
      "SearchScale64 q s = SearchScale_HaveScale (int k) s"
    using SearchScale64_max [OF assms, of q] by blast
  from k(1) have "s + int k \<le> 28" by (simp add: max_scale_power_def)
  then show ?thesis
    unfolding k(2) SearchScale_HaveScale_def SEARCHSCALE_MAX_SCALE_def POWER10_MAX64_def by auto
qed

lemma Div32_HaveScale32_Inr:
  assumes "Div32_HaveScale32 q r d s f c = Inr (q', r', s', f')"
  shows "s' = s + c \<and> f' = f"
  using assms
  by (auto simp: Div32_HaveScale32_def Let_def split: if_splits prod.splits)

lemma Div32_HaveScale32_Inl:
  assumes "Div32_HaveScale32 q r d s f c = Inl ex"
  shows "ex = Inl DISP_E_OVERFLOW"
  using assms
  by (auto simp: Div32_HaveScale32_def Let_def split: if_splits prod.splits)

lemma Div32_pass_overflow:
  assumes "Div32_pass q r d s f = Inl ex"
  shows "div_exit_overflow ex"
  using assms
  by (auto simp: Div32_pass_def Let_def div_exit_overflow_def
        split: if_splits dest!: Div32_HaveScale32_Inl)

lemma Div32_pass_scale:
  assumes "s \<le> 28"
  shows "case Div32_pass q r d s f of
           Inl ex \<Rightarrow> div_exit_ok ex
         | Inr (q', r', s', f') \<Rightarrow> s' \<le> 28"
proof (cases "r ! 0 = 0")
  case True
  then show ?thesis
    using assms
    by (auto simp: Div32_pass_def div_exit_ok_def POWER10_MAX32_def
          split: sum.splits dest!: Div32_HaveScale32_Inl Div32_HaveScale32_Inr)
next
  case False
  show ?thesis
    using assms False SearchScale64_result [OF assms, of q]
    by (auto simp: Div32_pass_def div_exit_ok_def POWER10_MAX32_def Let_def
          split: sum.splits dest!: Div32_HaveScale32_Inl Div32_HaveScale32_Inr)
qed

lemma Div32_loop_overflow: "div_exit_overflow (Div32_loop q r d s f)"
proof (induction q r d s f rule: Div32_loop.induct)
  case (1 q r d s f)
  show ?case
  proof (cases "Div32_pass q r d s f")
    case (Inl ex)
    then show ?thesis
      using Div32_pass_overflow [OF Inl] by (subst Div32_loop.simps) simp
  next
    case (Inr st)
    obtain q' r' s' f' where st: "st = (q', r', s', f')" by (cases st) auto
    have "div_exit_overflow (Div32_loop q' r' d s' f')"
      by (rule "1.IH" [OF Inr]) (simp_all add: st)
    then show ?thesis
      using Inr st by (subst Div32_loop.simps) simp
  qed
qed

lemma Div32_loop_scale: "s \<le> 28 \<Longrightarrow> div_exit_ok (Div32_loop q r d s f)"
proof (induction q r d s f rule: Div32_loop.induct)
  case (1 q r d s f)
  show ?case
  proof (cases "Div32_pass q r d s f")
    case (Inl ex)
    then show ?thesis
      using Div32_pass_scale [OF "1.prems", of q r d f] by (subst Div32_loop.simps) simp
  next
    case (Inr st)
    obtain q' r' s' f' where st: "st = (q', r', s', f')" by (cases st) auto
    have "s' \<le> 28" using Div32_pass_scale [OF "1.prems", of q r d f] Inr st by simp
    have "div_exit_ok (Div32_loop q' r' d s' f')"
      by (rule "1.IH" [OF Inr]) (simp_all add: st \<open>s' \<le> 28\<close>)
    then show ?thesis
      using Inr st by (subst Div32_loop.simps) simp
  qed
qed


lemma Div64_HaveScale64_Inl:
  assumes "Div64_HaveScale64 q r d s f c = Some (Inl ex)"
  shows "ex = Inl DISP_E_OVERFLOW"
  using assms
  by (auto simp: Div64_HaveScale64_def Let_def split: if_splits prod.splits option.splits)

lemma Div64_pass_overflow:
  assumes "Div64_pass q r d s f = Some (Inl ex)"
  shows "div_exit_overflow ex"
  using assms
  by (auto simp: Div64_pass_def Let_def div_exit_overflow_def
        split: if_splits dest!: Div64_HaveScale64_Inl)

lemma Div64_pass_scale:
  assumes "s \<le> 28"
  shows "case Div64_pass q r d s f of
           None \<Rightarrow> True
         | Some (Inl ex) \<Rightarrow> div_exit_ok ex
         | Some (Inr (q', r', s', f')) \<Rightarrow> s' \<le> 28"
proof (cases "rd64 r 0 = 0")
  case True
  then show ?thesis
    using assms
    by (auto simp: Div64_pass_def div_exit_ok_def POWER10_MAX64_def
          split: sum.splits option.splits dest!: Div64_HaveScale64_Inl Div64_HaveScale64_Inr)
next
  case False
  show ?thesis
    using assms False SearchScale64_result [OF assms, of q]
    by (auto simp: Div64_pass_def div_exit_ok_def Let_def
          split: sum.splits option.splits dest!: Div64_HaveScale64_Inl Div64_HaveScale64_Inr)
qed

lemma Div64_loop_overflow:
  "case Div64_loop q r d s f of None \<Rightarrow> True | Some ex \<Rightarrow> div_exit_overflow ex"
proof (induction q r d s f rule: Div64_loop.induct)
  case (1 q r d s f)
  show ?case
  proof (cases "Div64_pass q r d s f")
    case None
    then show ?thesis by (subst Div64_loop.simps) simp
  next
    case (Some p)
    show ?thesis
    proof (cases p)
      case (Inl ex)
      then show ?thesis
        using Div64_pass_overflow [of q r d s f ex] Some by (subst Div64_loop.simps) simp
    next
      case (Inr st)
      obtain q' r' s' f' where st: "st = (q', r', s', f')" by (cases st) auto
      have "case Div64_loop q' r' d s' f' of None \<Rightarrow> True | Some ex \<Rightarrow> div_exit_overflow ex"
        by (rule "1.IH" [OF Some Inr]) (simp_all add: st)
      then show ?thesis
        using Some Inr st by (subst Div64_loop.simps) simp
    qed
  qed
qed

lemma Div64_loop_scale:
  "s \<le> 28 \<Longrightarrow> case Div64_loop q r d s f of None \<Rightarrow> True | Some ex \<Rightarrow> div_exit_ok ex"
proof (induction q r d s f rule: Div64_loop.induct)
  case (1 q r d s f)
  show ?case
  proof (cases "Div64_pass q r d s f")
    case None
    then show ?thesis by (subst Div64_loop.simps) simp
  next
    case (Some p)
    show ?thesis
    proof (cases p)
      case (Inl ex)
      then show ?thesis
        using Div64_pass_scale [OF "1.prems", of q r d f] Some by (subst Div64_loop.simps) simp
    next
      case (Inr st)
      obtain q' r' s' f' where st: "st = (q', r', s', f')" by (cases st) auto
      have s': "s' \<le> 28"
        using Div64_pass_scale [OF "1.prems", of q r d f] Some Inr st by simp
      have "case Div64_loop q' r' d s' f' of None \<Rightarrow> True | Some ex \<Rightarrow> div_exit_ok ex"
        by (rule "1.IH" [OF Some Inr]) (simp_all add: st s')
      then show ?thesis
        using Some Inr st by (subst Div64_loop.simps) simp
    qed
  qed
qed

lemma Div96_HaveScale96_Inl:
  assumes "Div96_HaveScale96 q r d s f c = Some (Inl ex)"
  shows "ex = Inl DISP_E_OVERFLOW"
  using assms
  by (auto simp: Div96_HaveScale96_def Let_def split: if_splits prod.splits option.splits)

lemma Div96_pass_overflow:
  assumes "Div96_pass q r d s f = Some (Inl ex)"
  shows "div_exit_overflow ex"
  using assms
  by (auto simp: Div96_pass_def Let_def div_exit_overflow_def
        split: if_splits prod.splits dest!: Div96_HaveScale96_Inl)

lemma Div96_pass_scale:
  assumes "s \<le> 28"
  shows "case Div96_pass q r d s f of
           None \<Rightarrow> True
         | Some (Inl ex) \<Rightarrow> div_exit_ok ex
         | Some (Inr (q', r', s', f')) \<Rightarrow> s' \<le> 28"
proof (cases "(rd64 r 0 OR ucast (r ! 2)) = 0")
  case True
  then show ?thesis
    using assms
    by (auto simp: Div96_pass_def div_exit_ok_def POWER10_MAX64_def
          split: sum.splits option.splits dest!: Div96_HaveScale96_Inl Div96_HaveScale96_Inr)
next
  case False
  show ?thesis
    using assms False SearchScale64_result [OF assms, of q]
    by (auto simp: Div96_pass_def div_exit_ok_def Let_def
          split: sum.splits option.splits prod.splits dest!: Div96_HaveScale96_Inl Div96_HaveScale96_Inr)
qed

lemma Div96_loop_overflow:
  "case Div96_loop q r d s f of None \<Rightarrow> True | Some ex \<Rightarrow> div_exit_overflow ex"
proof (induction q r d s f rule: Div96_loop.induct)
  case (1 q r d s f)
  show ?case
  proof (cases "Div96_pass q r d s f")
    case None
    then show ?thesis by (subst Div96_loop.simps) simp
  next
    case (Some p)
    show ?thesis
    proof (cases p)
      case (Inl ex)
      then show ?thesis
        using Div96_pass_overflow [of q r d s f ex] Some by (subst Div96_loop.simps) simp
    next
      case (Inr st)
      obtain q' r' s' f' where st: "st = (q', r', s', f')" by (cases st) auto
      have "case Div96_loop q' r' d s' f' of None \<Rightarrow> True | Some ex \<Rightarrow> div_exit_overflow ex"
        by (rule "1.IH" [OF Some Inr]) (simp_all add: st)
      then show ?thesis
        using Some Inr st by (subst Div96_loop.simps) simp
    qed
  qed
qed

lemma Div96_loop_scale:
  "s \<le> 28 \<Longrightarrow> case Div96_loop q r d s f of None \<Rightarrow> True | Some ex \<Rightarrow> div_exit_ok ex"
proof (induction q r d s f rule: Div96_loop.induct)
  case (1 q r d s f)
  show ?case
  proof (cases "Div96_pass q r d s f")
    case None
    then show ?thesis by (subst Div96_loop.simps) simp
  next
    case (Some p)
    show ?thesis
    proof (cases p)
      case (Inl ex)
      then show ?thesis
        using Div96_pass_scale [OF "1.prems", of q r d f] Some by (subst Div96_loop.simps) simp
    next
      case (Inr st)
      obtain q' r' s' f' where st: "st = (q', r', s', f')" by (cases st) auto
      have s': "s' \<le> 28"
        using Div96_pass_scale [OF "1.prems", of q r d f] Some Inr st by simp
      have "case Div96_loop q' r' d s' f' of None \<Rightarrow> True | Some ex \<Rightarrow> div_exit_ok ex"
        by (rule "1.IH" [OF Some Inr]) (simp_all add: st s')
      then show ?thesis
        using Some Inr st by (subst Div96_loop.simps) simp
    qed
  qed
qed

lemma Div_unscale8_range:
  "0 \<le> s \<Longrightarrow> s \<le> 28 \<Longrightarrow> 0 \<le> snd (Div_unscale8 q s) \<and> snd (Div_unscale8 q s) \<le> 28"
proof (induction q s rule: Div_unscale8.induct)
  case (1 q s)
  show ?case
  proof (cases "(rd64 q 0 AND 0xFF) = 0 \<and> 8 \<le> s")
    case False
    then show ?thesis using "1.prems" by (subst (1 2) Div_unscale8.simps) auto
  next
    case True
    obtain q' ok where t: "Div_unscale_try q 100000000 = (q', ok)"
      by (cases "Div_unscale_try q 100000000") auto
    show ?thesis
    proof (cases ok)
      case False
      then show ?thesis
        using True t "1.prems" by (subst (1 2) Div_unscale8.simps) simp
    next
      case ok: True
      have "0 \<le> snd (Div_unscale8 q' (s - 8)) \<and> snd (Div_unscale8 q' (s - 8)) \<le> 28"
        using True "1.prems" by (intro "1.IH" [OF True refl t [symmetric] ok]) simp_all
      then show ?thesis
        using True t ok by (subst (1 2) Div_unscale8.simps) simp
    qed
  qed
qed

lemma Div_unscale_step_range:
  assumes "0 \<le> snd qs" and "snd qs \<le> 28" and "0 \<le> n"
  shows "0 \<le> snd (Div_unscale_step b n ulDen qs) \<and> snd (Div_unscale_step b n ulDen qs) \<le> 28"
  using assms
  by (cases qs) (auto simp: Div_unscale_step_def Let_def split: prod.splits)

lemma Div_unscale_range:
  assumes "0 \<le> s" and "s \<le> 28"
  shows "0 \<le> snd (Div_unscale q s) \<and> snd (Div_unscale q s) \<le> 28"
proof -
  note a = Div_unscale8_range [OF assms, of q]
  have b: "0 \<le> snd (Div_unscale_step 0xF 4 10000 (Div_unscale8 q s)) \<and>
           snd (Div_unscale_step 0xF 4 10000 (Div_unscale8 q s)) \<le> 28"
    using a by (intro Div_unscale_step_range) simp_all
  have c: "0 \<le> snd (Div_unscale_step 3 2 100 (Div_unscale_step 0xF 4 10000 (Div_unscale8 q s))) \<and>
           snd (Div_unscale_step 3 2 100 (Div_unscale_step 0xF 4 10000 (Div_unscale8 q s))) \<le> 28"
    using b by (intro Div_unscale_step_range) simp_all
  show ?thesis
    unfolding Div_unscale_def using c by (intro Div_unscale_step_range) simp_all
qed

lemma Div_finish_no_divbyzero:
  assumes "div_exit_overflow ex"
  shows "fst (Div_finish L R res ex) \<noteq> DISP_E_DIVBYZERO"
  using assms
  by (auto simp: Div_finish_def div_exit_overflow_def Let_def split: sum.splits prod.splits)

lemma Div_finish_NOERROR:
  assumes "div_exit_ok ex" and "div_exit_overflow ex" and "Div_finish L R res ex = (NOERROR, r)"
  shows "uint (scale r) \<le> 28 \<and> sign r = sign L XOR sign R \<and> wReserved r = wReserved res"
proof (cases ex)
  case (Inl e)
  then show ?thesis using assms by (simp add: Div_finish_def div_exit_overflow_def)
next
  case (Inr x)
  obtain q s f where x: "x = (q, s, f)" by (cases x) auto
  have s: "0 \<le> s" "s \<le> 28" using assms(1) Inr x by (simp_all add: div_exit_ok_def)
  obtain q' s' where u: "(if f then Div_unscale q s else (q, s)) = (q', s')"
    by (cases "if f then Div_unscale q s else (q, s)") auto
  have "0 \<le> s' \<and> s' \<le> 28"
    using Div_unscale_range [OF s, of q] s u by (cases f) (auto simp: split: if_splits)
  then show ?thesis
    using assms(3) Inr x u by (auto simp: Div_finish_def uint_scale_of_int)
qed

lemma make64_hi_low: "make64 (hi32 v) (low32 v) = v"
proof (rule word_unat_eq_iff [THEN iffD2])
  show "unat (make64 (hi32 v) (low32 v)) = unat v"
    by (simp add: unat_make64 unat_hi32 unat_low32)
qed

lemma mantissa_zero_iff: "mantissa d = 0 \<longleftrightarrow> Hi32 d = 0 \<and> Lo64 d = 0"
  by (simp add: mantissa_def unat_eq_0)

lemma fits32_low32_zero: "FitsIn32Bit v \<Longrightarrow> low32 v = 0 \<longleftrightarrow> v = 0"
proof -
  assume "FitsIn32Bit v"
  then have "unat v < 2 ^ 32" by (simp add: FitsIn32Bit_def word_le_nat_alt)
  then have "unat (low32 v) = unat v" by (simp add: unat_low32)
  then show ?thesis by (metis unat_eq_0)
qed

text \<open>
  The ways \<^verbatim>\<open>DecimalDiv\<close> returns: the divisor test, or the end of one of the
  three loops followed by the common tail.
\<close>

lemma DecimalDiv_cases:
  assumes "DecimalDiv L R res = Some hr"
  shows "(mantissa R = 0 \<and> hr = (DISP_E_DIVBYZERO, res)) \<or>
         (mantissa R \<noteq> 0 \<and>
          (\<exists>ex. div_exit_overflow ex \<and> (uint (scale L) \<le> 28 \<longrightarrow> div_exit_ok ex) \<and>
                hr = Div_finish L R res ex))"
proof -
  define iScale where "iScale = uint (scale L) - uint (scale R)"
  have sc: "uint (scale L) \<le> 28 \<Longrightarrow> iScale \<le> 28"
    unfolding iScale_def using uint_nonnegative [of "scale R"] by linarith
  show ?thesis
  proof (cases "Hi32 R = 0 \<and> FitsIn32Bit (Lo64 R)")
    case True
    show ?thesis
    proof (cases "Lo64 R = 0")
      case z: True
      have "hr = (DISP_E_DIVBYZERO, res)"
        using assms True z
        by (simp add: DecimalDiv_def Let_def wr64_def rd64_def hi32_def low32_def make64_def)
      then show ?thesis
        using z True by (simp add: mantissa_zero_iff)
    next
      case nz: False
      then have l: "low32 (Lo64 R) \<noteq> 0" using True fits32_low32_zero by blast
      have "\<exists>qa ra da. hr = Div_finish L R res (Div32_loop qa ra da iScale False)"
        using assms True l
        by (auto simp: DecimalDiv_def Let_def wr64_def rd64_def make64_hi_low iScale_def
              split: prod.splits)
      then obtain qa ra da where
        ex: "hr = Div_finish L R res (Div32_loop qa ra da iScale False)"
        by blast
      show ?thesis
        using nz ex Div32_loop_overflow [of qa ra da iScale False]
          Div32_loop_scale [of iScale qa ra da False] sc
        by (auto simp: mantissa_zero_iff)
    qed
  next
    case False
    then have m: "mantissa R \<noteq> 0" by (auto simp: mantissa_zero_iff FitsIn32Bit_def)
    show ?thesis
    proof (cases "Hi32 R = 0")
      case True
      have "\<exists>qa ra da ex. Div64_loop qa ra da iScale False = Some ex \<and> hr = Div_finish L R res ex"
        using assms False True
        by (auto simp: DecimalDiv_def Let_def wr64_def rd64_def make64_hi_low iScale_def
              split: prod.splits option.splits if_splits)
      then obtain qa ra da ex where
        ex: "Div64_loop qa ra da iScale False = Some ex" "hr = Div_finish L R res ex"
        by blast
      have "div_exit_overflow ex"
        using Div64_loop_overflow [of qa ra da iScale False] ex(1) by simp
      moreover have "uint (scale L) \<le> 28 \<longrightarrow> div_exit_ok ex"
        using Div64_loop_scale [of iScale qa ra da False] ex(1) sc by auto
      ultimately show ?thesis using m ex(2) by blast
    next
      case nz: False
      have "\<exists>qa ra da ex. Div96_loop qa ra da iScale False = Some ex \<and> hr = Div_finish L R res ex"
        using assms False nz
        by (auto simp: DecimalDiv_def Let_def wr64_def rd64_def make64_hi_low iScale_def
              split: prod.splits option.splits if_splits)
      then obtain qa ra da ex where
        ex: "Div96_loop qa ra da iScale False = Some ex" "hr = Div_finish L R res ex"
        by blast
      have "div_exit_overflow ex"
        using Div96_loop_overflow [of qa ra da iScale False] ex(1) by simp
      moreover have "uint (scale L) \<le> 28 \<longrightarrow> div_exit_ok ex"
        using Div96_loop_scale [of iScale qa ra da False] ex(1) sc by auto
      ultimately show ?thesis using m ex(2) by blast
    qed
  qed
qed

subsection \<open>What DecimalDiv returns, and the callers\<close>

lemma mantissa_bound: "mantissa d < 2 ^ 96"
proof -
  have "unat (Hi32 d) < 2 ^ 32" using unsigned_less [of "Hi32 d", where ?'a = nat] by simp
  then have "unat (Hi32 d) \<le> 2 ^ 32 - 1" by simp
  then have "unat (Hi32 d) * 2 ^ 64 \<le> (2 ^ 32 - 1) * 2 ^ 64" by (rule mult_right_mono) simp
  moreover have "unat (Lo64 d) < 2 ^ 64" using unsigned_less [of "Lo64 d", where ?'a = nat] by simp
  ultimately show ?thesis by (simp add: mantissa_def)
qed

lemma DecimalMul_example:
  "DecimalMul \<lparr>wReserved = 0, scale = 1, sign = 128, Hi32 = 0, Lo64 = 6\<rparr>
     \<lparr>wReserved = 0, scale = 1, sign = 0, Hi32 = 0, Lo64 = 3\<rparr>
     \<lparr>wReserved = 7, scale = 9, sign = 1, Hi32 = 3, Lo64 = 4\<rparr>
   = Some (NOERROR, \<lparr>wReserved = 7, scale = 2, sign = 128, Hi32 = 0, Lo64 = 18\<rparr>)"
  by (simp add: DecimalMul_def Mul64By64_def Mul_finish_def DEC_SCALE_MAX_def Let_def)

lemma Mul_ReturnZero_example:
  "\<not> Mul_ReturnZero \<lparr>wReserved = 0, scale = 1, sign = 128, Hi32 = 0, Lo64 = 6\<rparr>
     \<lparr>wReserved = 0, scale = 1, sign = 0, Hi32 = 0, Lo64 = 3\<rparr>"
  by (simp add: Mul_ReturnZero_def)

lemma Mul_ReturnZero_tiny:
  "Mul_ReturnZero \<lparr>wReserved = 0, scale = 28, sign = 128, Hi32 = 0, Lo64 = 1\<rparr>
     \<lparr>wReserved = 0, scale = 28, sign = 0, Hi32 = 0, Lo64 = 1\<rparr>"
  by (simp add: Mul_ReturnZero_def Mul64By64_def)

lemma DecimalMul_rounded_example:
  "\<not> Mul_ReturnZero \<lparr>wReserved = 0, scale = 28, sign = 128, Hi32 = 0, Lo64 = 1\<rparr>
     \<lparr>wReserved = 0, scale = 19, sign = 0, Hi32 = 0, Lo64 = 1\<rparr> \<and>
   DecimalMul \<lparr>wReserved = 0, scale = 28, sign = 128, Hi32 = 0, Lo64 = 1\<rparr>
     \<lparr>wReserved = 0, scale = 19, sign = 0, Hi32 = 0, Lo64 = 1\<rparr>
     \<lparr>wReserved = 7, scale = 9, sign = 1, Hi32 = 3, Lo64 = 4\<rparr>
   = Some (NOERROR, \<lparr>wReserved = 7, scale = 28, sign = 128, Hi32 = 0, Lo64 = 0\<rparr>)"
  by (simp add: Mul_ReturnZero_def DecimalMul_def Mul64By64_def Mul_finish_def DEC_SCALE_MAX_def
        DivMod64By64_def rgulPower10_64_def Let_def)

lemma DecimalDiv_example:
  "DecimalDiv \<lparr>wReserved = 0, scale = 1, sign = 128, Hi32 = 0, Lo64 = 6\<rparr>
     \<lparr>wReserved = 0, scale = 1, sign = 0, Hi32 = 0, Lo64 = 3\<rparr>
     \<lparr>wReserved = 7, scale = 9, sign = 1, Hi32 = 3, Lo64 = 4\<rparr>
   = Some (NOERROR, \<lparr>wReserved = 7, scale = 0, sign = 128, Hi32 = 0, Lo64 = 2\<rparr>)"
  apply (simp add: DecimalDiv_def wr64_def rd64_def low32_def hi32_def make64_def
      FitsIn32Bit_def Div96By32_x64_def DivMod64By32InPlace_def DivMod64By32_def
      DivMod32By32_def Let_def)
  apply (subst Div32_loop.simps)
  apply (simp add: Div32_pass_def Div_finish_def rd64_def make64_def)
  done

lemma DecimalAddSub_example:
  "DecimalAddSub \<lparr>wReserved = 0, scale = 1, sign = 128, Hi32 = 0, Lo64 = 6\<rparr>
     \<lparr>wReserved = 0, scale = 1, sign = 0, Hi32 = 0, Lo64 = 3\<rparr>
     \<lparr>wReserved = 7, scale = 9, sign = 1, Hi32 = 3, Lo64 = 4\<rparr> 0
   = Some (NOERROR, \<lparr>wReserved = 7, scale = 1, sign = 128, Hi32 = 0, Lo64 = 3\<rparr>)"
  by (simp add: DecimalAddSub_def AlignedAdd_def DECIMAL_NEG_def SubBorrow64_def
        SubBorrow32_def Let_def)

lemma DecimalDiv_zero_divisor:
  assumes "mantissa R = 0"
  shows "DecimalDiv L R res = Some (DISP_E_DIVBYZERO, res)"
proof -
  have "Hi32 R = 0" "Lo64 R = 0" using assms by (simp_all add: mantissa_zero_iff)
  then show ?thesis
    by (simp add: DecimalDiv_def Let_def wr64_def rd64_def hi32_def low32_def make64_def
          FitsIn32Bit_def)
qed

lemma DecimalDiv_nonzero_divisor:
  assumes "mantissa R \<noteq> 0"
  shows "DecimalDiv L R res \<noteq> Some (DISP_E_DIVBYZERO, r)"
proof
  assume a: "DecimalDiv L R res = Some (DISP_E_DIVBYZERO, r)"
  from DecimalDiv_cases [OF a] assms obtain ex where
    ex: "div_exit_overflow ex" "(DISP_E_DIVBYZERO, r) = Div_finish L R res ex"
    by blast
  from Div_finish_no_divbyzero [OF ex(1), of L R res] ex(2) show False
    by (metis fst_conv)
qed

lemma DecimalDiv_result:
  assumes "DecimalDiv L R res = Some (NOERROR, r)"
  shows "sign r = sign L XOR sign R \<and> wReserved r = wReserved res \<and>
         (uint (scale L) \<le> 28 \<longrightarrow> uint (scale r) \<le> 28)"
proof -
  from DecimalDiv_cases [OF assms] obtain ex where
    ex: "div_exit_overflow ex" "uint (scale L) \<le> 28 \<longrightarrow> div_exit_ok ex"
      "(NOERROR, r) = Div_finish L R res ex"
    by auto
  show ?thesis
  proof (cases ex)
    case (Inl e)
    then show ?thesis using ex(1,3) by (simp add: Div_finish_def div_exit_overflow_def)
  next
    case (Inr x)
    have a: "sign r = sign L XOR sign R \<and> wReserved r = wReserved res"
      using ex(3) Inr by (auto simp: Div_finish_def Let_def split: prod.splits if_splits)
    have "uint (scale r) \<le> 28" if "uint (scale L) \<le> 28"
      using Div_finish_NOERROR [OF _ ex(1) ex(3) [symmetric]] ex(2) that by simp
    then show ?thesis using a by simp
  qed
qed

lemma DecimalMul_no_divbyzero: "DecimalMul L R res \<noteq> Some (DISP_E_DIVBYZERO, r)"
  using DecimalMul_result [of L R res DISP_E_DIVBYZERO r] by auto

lemma DecimalAddSub_no_divbyzero:
  "b AND 0x7F = 0 \<Longrightarrow> DecimalAddSub L R res b \<noteq> Some (DISP_E_DIVBYZERO, r)"
  using DecimalAddSub_result [of L R res b DISP_E_DIVBYZERO r] by auto

lemma DoMultiply_success:
  "DoMultiply L R res = Some (d, False) \<longleftrightarrow>
   (\<exists>r. DecimalMul L R res = Some (NOERROR, r) \<and> d = r\<lparr>wReserved := 0\<rparr>)"
  by (auto simp: DoMultiply_def FAILED_def Let_def split: option.splits)

lemma DoAddSub_success:
  "DoAddSub L R b res = Some (d, False) \<longleftrightarrow>
   (\<exists>r. DecimalAddSub L R res b = Some (NOERROR, r) \<and> d = r\<lparr>wReserved := 0\<rparr>)"
  by (auto simp: DoAddSub_def FAILED_def Let_def split: option.splits)

lemma DoDivide_success:
  "DoDivide L R res = Some (Inr (d, False)) \<longleftrightarrow>
   (\<exists>r. DecimalDiv L R res = Some (NOERROR, r) \<and> d = r\<lparr>wReserved := 0\<rparr>)"
  by (auto simp: DoDivide_def FAILED_def Let_def split: option.splits)

lemma DecimalMul_fields:
  assumes "DecimalMul L R res = Some (NOERROR, r)"
    and "sign L AND 0x7F = 0" and "sign R AND 0x7F = 0"
  shows "result_fields_ok r \<and> (wReserved r = wReserved res \<or> wReserved r = 0)"
  using DecimalMul_result [OF assms(1)] assms(2,3) mantissa_bound [of r]
  by (auto simp: result_fields_ok_def DECIMAL_SETZERO_def xor_and_7F)

lemma DecimalAddSub_fields:
  assumes "DecimalAddSub L R res b = Some (NOERROR, r)"
    and "uint (scale L) \<le> 28" and "uint (scale R) \<le> 28"
    and "sign L AND 0x7F = 0" and "b AND 0x7F = 0"
  shows "result_fields_ok r \<and> wReserved r = wReserved res"
  using DecimalAddSub_result [OF assms(1) assms(5)] assms(2,3,4) mantissa_bound [of r]
  by (simp add: result_fields_ok_def)

lemma DecimalDiv_fields:
  assumes "DecimalDiv L R res = Some (NOERROR, r)"
    and "uint (scale L) \<le> 28" and "sign L AND 0x7F = 0" and "sign R AND 0x7F = 0"
  shows "result_fields_ok r \<and> wReserved r = wReserved res"
  using DecimalDiv_result [OF assms(1)] assms(2,3,4) mantissa_bound [of r]
  by (simp add: result_fields_ok_def xor_and_7F)

lemma result_fields_ok_wReserved: "result_fields_ok (r\<lparr>wReserved := w\<rparr>) = result_fields_ok r"
  by (simp add: result_fields_ok_def mantissa_def)

subsection \<open>NumberToDecimal on one digit and on no digit\<close>

lemma NumberToDecimal_absorb_none:
  "e \<le> - 28 \<Longrightarrow> NumberToDecimal_absorb ds front d p e = (d, p, e)"
  by (subst NumberToDecimal_absorb.simps) simp

lemma DecAddInt32_zero_1:
  "DecAddInt32 \<lparr>wReserved = 0, scale = 0, sign = 0, Hi32 = 0, Lo64 = 0\<rparr> 1
   = \<lparr>wReserved = 0, scale = 0, sign = 0, Hi32 = 0, Lo64 = 1\<rparr>"
  by (simp add: DecAddInt32_def D32AddCarry_def low32_dec_def mid32_dec_def low32_def hi32_def
        set_low32_def set_hi32_def make64_def Let_def)

lemma DecMul10_zero:
  "DecMul10 \<lparr>wReserved = 0, scale = 0, sign = 0, Hi32 = 0, Lo64 = 0\<rparr>
   = \<lparr>wReserved = 0, scale = 0, sign = 0, Hi32 = 0, Lo64 = 0\<rparr>"
  by (simp add: DecMul10_def DecShiftLeft_def DecAdd_def D32AddCarry_def low32_dec_def
        mid32_dec_def low32_def hi32_def set_low32_def set_hi32_def make64_def Let_def)

lemma NumberToDecimal_absorb_1:
  "NumberToDecimal_absorb [49] front \<lparr>wReserved = 0, scale = 0, sign = 0, Hi32 = 0, Lo64 = 0\<rparr> 0 (- 27)
   = (\<lparr>wReserved = 0, scale = 0, sign = 0, Hi32 = 0, Lo64 = 1\<rparr>, 1, - 28)"
  apply (subst NumberToDecimal_absorb.simps)
  apply (simp add: digit_at_def DecMul10_zero DecAddInt32_zero_1 mid32_dec_def low32_dec_def
      low32_def hi32_def)
  apply (subst NumberToDecimal_absorb.simps)
  apply (simp add: digit_at_def)
  done

lemma scale_of_int_not_28:
  assumes "- 27 \<le> P" and "P \<le> 28"
  shows "(word_of_int (P - 1) :: u8) \<noteq> 28"
proof
  assume a: "(word_of_int (P - 1) :: u8) = 28"
  have "(P - 1) mod 2 ^ LENGTH(8) = uint (word_of_int (P - 1) :: u8)"
    by (rule uint_word_of_int [symmetric])
  also have "\<dots> = uint (28 :: u8)" by (simp only: a)
  finally have "(P - 1) mod 256 = 28" by simp
  then show False using assms by presburger
qed

lemma NumberToDecimal_1_exponent_minus_27:
  "NumberToDecimal P 0 \<lparr>number_scale = - 27, number_sign = 0, digits = [49]\<rparr> =
     (if P < - 27 then None
      else if P \<le> 28 then
        Some \<lparr>wReserved = 0, scale = of_int (P - 1), sign = 0, Hi32 = 0, Lo64 = 0\<rparr>
      else Some \<lparr>wReserved = 0, scale = 28, sign = 0, Hi32 = 0, Lo64 = 1\<rparr>)"
  by (simp add: NumberToDecimal_def NumberToDecimal_absorb_1 digit_at_def Let_def)

subsection \<open>Swapping the operands of an addition\<close>

lemma AddCarry64_commute: "AddCarry64 c a b = AddCarry64 c b a"
  by (simp add: AddCarry64_def add.commute add.left_commute)

lemma AddCarry32_commute: "AddCarry32 c a b = AddCarry32 c b a"
  by (simp add: AddCarry32_def add.commute add.left_commute)

lemma clean_sign_cases:
  assumes "(s::u8) = 0 \<or> s = DECIMAL_NEG" and "(t::u8) = 0 \<or> t = DECIMAL_NEG"
  shows "(s = t \<and> (t XOR s) AND DECIMAL_NEG = 0 \<and> (s XOR t) AND DECIMAL_NEG = 0) \<or>
         (s \<noteq> t \<and> (t XOR s) AND DECIMAL_NEG = DECIMAL_NEG \<and>
          (s XOR t) AND DECIMAL_NEG = DECIMAL_NEG \<and>
          s XOR DECIMAL_NEG = t \<and> t XOR DECIMAL_NEG = s)"
  using assms by (auto simp: DECIMAL_NEG_def)

lemma sub96_borrow_swap:
  fixes loL loR :: u64 and hiL hiR :: u32
  assumes "unat hiL < unat hiR + (if unat loL < unat loR then 1 else 0)"
  shows "\<not> unat hiR < unat hiL + (if unat loR < unat loL then 1 else 0)"
  using assms by (auto split: if_splits)

lemma sub96_no_borrow_swap:
  fixes loL loR :: u64 and hiL hiR :: u32
  assumes "\<not> unat hiL < unat hiR + (if unat loL < unat loR then 1 else 0)"
    and "hiL \<noteq> hiR \<or> loL \<noteq> loR"
  shows "unat hiR < unat hiL + (if unat loR < unat loL then 1 else 0)"
proof (cases "hiL = hiR")
  case True
  then have "loL \<noteq> loR" using assms(2) by simp
  then have "unat loL \<noteq> unat loR" by (simp add: word_unat_eq_iff)
  then show ?thesis using assms(1) True by (auto split: if_splits)
next
  case False
  then have "unat hiL \<noteq> unat hiR" by (simp add: word_unat_eq_iff)
  then show ?thesis using assms(1) by (auto split: if_splits)
qed

lemma AlignedAdd_add_commute:
  "AlignedAdd R L res 0 = AlignedAdd L R res 0"
  by (simp add: AlignedAdd_def AddCarry64_commute [of False "Lo64 R"]
        AddCarry32_commute [of _ "Hi32 R"])

lemma AlignedAdd_reads_mantissa:
  "Hi32 L' = Hi32 L \<Longrightarrow> Lo64 L' = Lo64 L \<Longrightarrow> AlignedAdd L' R res b = AlignedAdd L R res b"
  by (simp add: AlignedAdd_def)

lemma AlignedAdd_sub_cancel:
  assumes "Hi32 L = Hi32 R" and "Lo64 L = Lo64 R"
  shows "AlignedAdd L R res DECIMAL_NEG = (NOERROR, res\<lparr>Lo64 := 0, Hi32 := 0\<rparr>)"
  using assms by (simp add: AlignedAdd_def SubBorrow64_def SubBorrow32_def DECIMAL_NEG_def)

lemma AlignedAdd_sub_swap_borrow:
  assumes borrow:
      "unat (Hi32 L) < unat (Hi32 R) + (if unat (Lo64 L) < unat (Lo64 R) then 1 else 0)"
    and sign: "sL XOR DECIMAL_NEG = sR"
  shows "AlignedAdd R L (res\<lparr>scale := s, sign := sR\<rparr>) DECIMAL_NEG
         = AlignedAdd L R (res\<lparr>scale := s, sign := sL\<rparr>) DECIMAL_NEG"
proof -
  consider (lt) "unat (Lo64 L) < unat (Lo64 R)" | (eq) "Lo64 L = Lo64 R"
    | (gt) "unat (Lo64 R) < unat (Lo64 L)"
    by (metis linorder_neqE_nat word_unat_eq_iff)
  then show ?thesis
  proof cases
    case lt
    then have f: "\<not> unat (Lo64 R) < unat (Lo64 L)" "Lo64 L \<noteq> Lo64 R" "Lo64 R \<noteq> Lo64 L"
      by auto
    have nb: "\<not> unat (Hi32 R) < unat (Hi32 L)" using borrow lt by simp
    have bb: "unat (Hi32 L) < Suc (unat (Hi32 R))" using borrow lt by simp
    show ?thesis
      using lt f nb bb sign
      by (simp add: AlignedAdd_def SubBorrow64_def SubBorrow32_def SignFlip_def Let_def
            DECIMAL_NEG_def not_eq_complement)
  next
    case eq
    have bb: "unat (Hi32 L) < unat (Hi32 R)" using borrow eq by simp
    then have nb: "\<not> unat (Hi32 R) < unat (Hi32 L)" by simp
    show ?thesis
      using eq nb bb sign
      by (simp add: AlignedAdd_def SubBorrow64_def SubBorrow32_def SignFlip_def Let_def
            DECIMAL_NEG_def not_eq_complement)
  next
    case gt
    then have f: "\<not> unat (Lo64 L) < unat (Lo64 R)" "Lo64 L \<noteq> Lo64 R" "Lo64 R \<noteq> Lo64 L"
      by auto
    have bb: "unat (Hi32 L) < unat (Hi32 R)" using borrow f(1) by simp
    then have nb: "\<not> unat (Hi32 R) < Suc (unat (Hi32 L))" by simp
    show ?thesis
      using gt f nb bb sign
      by (simp add: AlignedAdd_def SubBorrow64_def SubBorrow32_def SignFlip_def Let_def
            DECIMAL_NEG_def not_eq_complement)
  qed
qed

lemma AlignedAdd_sub_swap:
  assumes "Hi32 L \<noteq> Hi32 R \<or> Lo64 L \<noteq> Lo64 R" and "sL XOR DECIMAL_NEG = sR"
    and "sR XOR DECIMAL_NEG = sL"
  shows "AlignedAdd R L (res\<lparr>scale := s, sign := sR\<rparr>) DECIMAL_NEG
         = AlignedAdd L R (res\<lparr>scale := s, sign := sL\<rparr>) DECIMAL_NEG"
proof (cases "unat (Hi32 L) < unat (Hi32 R) + (if unat (Lo64 L) < unat (Lo64 R) then 1 else 0)")
  case True
  then show ?thesis using assms(2) by (rule AlignedAdd_sub_swap_borrow)
next
  case False
  have b: "unat (Hi32 R) < unat (Hi32 L) + (if unat (Lo64 R) < unat (Lo64 L) then 1 else 0)"
    using sub96_no_borrow_swap [OF False assms(1)] .
  show ?thesis using AlignedAdd_sub_swap_borrow [OF b assms(3)] by simp
qed


lemma DecimalAdd_unequal_scales:
  assumes "scale L \<noteq> scale R"
  shows "DecimalAdd L R res =
     (if uint (scale R) < uint (scale L) then
        AddSub_scaled R L
          (res\<lparr>scale := scale L, sign := sign L XOR ((sign R XOR sign L) AND DECIMAL_NEG)\<rparr>)
          ((sign R XOR sign L) AND DECIMAL_NEG) (uint (scale L) - uint (scale R))
      else
        AddSub_scaled L R (res\<lparr>scale := scale R, sign := sign L\<rparr>)
          ((sign R XOR sign L) AND DECIMAL_NEG) (uint (scale R) - uint (scale L)))"
  using assms by (simp add: DecimalAdd_def DecimalAddSub_def Let_def)

lemma DecimalAdd_equal_scales:
  assumes "scale L = scale R"
  shows "DecimalAdd L R res =
     Some (AlignedAdd L R (res\<lparr>scale := scale L, sign := sign L\<rparr>)
             ((sign R XOR sign L) AND DECIMAL_NEG))"
  using assms by (simp add: DecimalAdd_def DecimalAddSub_def Let_def)

subsection \<open>The rounding step of ScaleResult\<close>

lemma low32_make64: "low32 (make64 h l) = l"
proof (rule word_unat_eq_iff [THEN iffD2])
  have "unat l < 2 ^ 32" using u32_bound [of l] by simp
  then show "unat (low32 (make64 h l)) = unat l"
    by (simp add: unat_low32 unat_make64)
qed

lemma hi32_make64: "hi32 (make64 h l) = h"
proof (rule word_unat_eq_iff [THEN iffD2])
  have "unat l < 2 ^ 32" using u32_bound [of l] by simp
  then show "unat (hi32 (make64 h l)) = unat h"
    by (simp add: unat_hi32 unat_make64)
qed

lemma low32_set_low32: "low32 (set_low32 v l) = l"
  by (simp add: set_low32_def low32_make64)

lemma hi32_set_low32: "hi32 (set_low32 v l) = hi32 v"
  by (simp add: set_low32_def hi32_make64)

lemma unat_drop_bit_1: "unat (drop_bit 1 (d :: u32)) = unat d div 2"
  by (simp add: unat_drop_bit_eq drop_bit_eq_div unat_div)

lemma even_mod32: "even ((n::nat) mod 2 ^ 32) = even n"
proof -
  have "(2::nat) dvd 2 ^ 32" by simp
  then show ?thesis by (rule dvd_mod_iff)
qed

lemma and_1_eq_0: "((x :: u32) AND 1) = 0 \<longleftrightarrow> even (unat x)"
  using and_mask_dvd_nat [of 1 x] by simp

lemma round_bit: "(((low32 x) AND 1) OR s) \<noteq> 0 \<longleftrightarrow> odd (unat x) \<or> s \<noteq> 0"
  using even_mod32 [of "unat x"] by (simp add: or_eq_0_iff and_1_eq_0 unat_low32)

lemma mod_once: "(n::nat) < 2 * m \<Longrightarrow> n mod m + (if m \<le> n then m else 0) = n"
proof (cases "m \<le> n")
  case True
  assume "n < 2 * m"
  then have "n - m < m" using True by simp
  then have "n mod m = n - m" using True by (simp add: le_mod_geq)
  then show ?thesis using True by simp
next
  case False
  then show ?thesis by simp
qed

lemma AddCarry64_unat:
  "unat (snd (AddCarry64 c a b)) + (if fst (AddCarry64 c a b) then 2 ^ 64 else 0)
   = (if c then 1 else 0) + unat a + unat b"
proof -
  define n where "n = (if c then 1 else 0) + unat a + unat b"
  have "unat a < 2 ^ 64" "unat b < 2 ^ 64"
    using unsigned_less [of a, where ?'a = nat] unsigned_less [of b, where ?'a = nat] by simp_all
  then have n: "n < 2 * 2 ^ 64" by (simp add: n_def)
  have "unat (of_nat n :: u64) = n mod 2 ^ 64" by (simp add: unat_of_nat)
  then have "unat (of_nat n :: u64) + (if 2 ^ 64 \<le> n then 2 ^ 64 else 0) = n"
    using mod_once [OF n] by simp
  then show ?thesis by (simp add: AddCarry64_def Let_def n_def)
qed

lemma AddCarry32_unat:
  "unat (snd (AddCarry32 c a b)) + (if fst (AddCarry32 c a b) then 2 ^ 32 else 0)
   = (if c then 1 else 0) + unat a + unat b"
proof -
  define n where "n = (if c then 1 else 0) + unat a + unat b"
  have "unat a < 2 ^ 32" "unat b < 2 ^ 32"
    using unsigned_less [of a, where ?'a = nat] unsigned_less [of b, where ?'a = nat] by simp_all
  then have n: "n < 2 * 2 ^ 32" by (simp add: n_def)
  have "unat (of_nat n :: u32) = n mod 2 ^ 32" by (simp add: unat_of_nat)
  then have "unat (of_nat n :: u32) + (if 2 ^ 32 \<le> n then 2 ^ 32 else 0) = n"
    using mod_once [OF n] by simp
  then show ?thesis by (simp add: AddCarry32_def Let_def n_def)
qed

lemma Add96By32_u64_cons:
  "Add96By32_u64 (b0 # b1 # rest) v =
     (fst (AddCarry32 (fst (AddCarry64 False b0 (ucast v))) (low32 b1) 0),
      snd (AddCarry64 False b0 (ucast v))
        # set_low32 b1 (snd (AddCarry32 (fst (AddCarry64 False b0 (ucast v))) (low32 b1) 0))
        # rest)"
  by (simp add: Add96By32_u64_def Let_def case_prod_beta)

lemma val96_bound: "val96 b < 2 ^ 96"
proof -
  have "unat (low32 (b ! 1)) \<le> 2 ^ 32 - 1" using u32_bound [of "low32 (b ! 1)"] by simp
  then have "unat (low32 (b ! 1)) * 2 ^ 64 \<le> (2 ^ 32 - 1) * 2 ^ 64" by (rule mult_right_mono) simp
  moreover have "unat (b ! 0) < 2 ^ 64" using unsigned_less [of "b ! 0", where ?'a = nat] by simp
  ultimately show ?thesis by (simp add: val96_def)
qed

lemma Add96By32_u64_val:
  "val96 (snd (Add96By32_u64 (b0 # b1 # rest) 1))
     + (if fst (Add96By32_u64 (b0 # b1 # rest) 1) then 2 ^ 96 else 0)
   = val96 (b0 # b1 # rest) + 1"
proof -
  define c1 where "c1 = fst (AddCarry64 False b0 1)"
  define lo where "lo = snd (AddCarry64 False b0 1)"
  define c2 where "c2 = fst (AddCarry32 c1 (low32 b1) 0)"
  define l1 where "l1 = snd (AddCarry32 c1 (low32 b1) 0)"
  have a: "unat lo + (if c1 then 2 ^ 64 else 0) = unat b0 + 1"
    using AddCarry64_unat [of False b0 1] by (simp add: c1_def lo_def)
  have b: "unat l1 + (if c2 then 2 ^ 32 else 0) = (if c1 then 1 else 0) + unat (low32 b1)"
    using AddCarry32_unat [of c1 "low32 b1" 0] by (simp add: c2_def l1_def)
  have "unat l1 * 2 ^ 64 + unat lo + (if c2 then 2 ^ 96 else 0)
        = unat (low32 b1) * 2 ^ 64 + unat b0 + 1"
    using a b by (cases c1; cases c2; simp)
  then show ?thesis
    by (simp add: Add96By32_u64_cons val96_def low32_set_low32 c1_def lo_def c2_def l1_def)
qed


lemma ReduceScale_ulDen:
  "fst (snd (snd (snd (ReduceScale rg h n)))) =
     (if n < POWER10_MAX32 then ucast (rgulPower10_64 ! nat n) else POWER10_MAX_VALUE32)"
  by (simp add: ReduceScale_def Let_def case_prod_beta)

lemma less_9_cases: "0 < n \<Longrightarrow> n < 9 \<Longrightarrow> n = 1 \<or> n = 2 \<or> n = 3 \<or> n = 4 \<or> n = 5 \<or> n = 6 \<or> n = 7 \<or> n = (8::int)"
  by arith

lemma ReduceScale_ulDen_even:
  assumes "ReduceScale rg h n = (r, buf, h', d, n')" and "0 < n"
  shows "unat d = 10 ^ nat (min n 9)"
proof -
  have d: "d = (if n < POWER10_MAX32 then ucast (rgulPower10_64 ! nat n) else POWER10_MAX_VALUE32)"
    using ReduceScale_ulDen [of rg h n] assms(1) by simp
  show ?thesis
  proof (cases "n < 9")
    case False
    then show ?thesis
      by (simp add: d POWER10_MAX32_def POWER10_MAX_VALUE32_def rgulPower10_64_def min_def)
  next
    case True
    from less_9_cases [OF assms(2) True] show ?thesis
      by (elim disjE) (simp_all add: d POWER10_MAX32_def rgulPower10_64_def)
  qed
qed

lemma ScaleResult_loop_after_carry:
  "ScaleResult_loop (0 # 0x100000000 # rest) 1 s 1 0 0
   = Some (if s < 0 then - 1 else s, 0x999999999999999A # 0x19999999 # rest)"
  apply (subst ScaleResult_loop.simps)
  apply (simp add: ReduceScale_def ReduceScale_loop.simps [of _ 0] ReduceScale_loop.simps [of _ "- 1"]
      DivMod64By32InPlace_def DivMod64By32_def make64_def hi32_def low32_def set_low32_def
      set_hi32_def rgulPower10_64_def POWER10_MAX32_def ScaleResult_roundup_def
      Add96By32_u64_def AddCarry64_def AddCarry32_def Let_def)
  done


lemma odd_val96: "odd (val96 (b0 # b1 # rest)) = odd (unat b0)"
  by (simp add: val96_def)

lemma ScaleResult_roundup_iff:
  assumes "even (unat d)"
  shows "ScaleResult_roundup (drop_bit 1 d) r (b0 # b1 # rest) st
         = rounds_up (unat d) (unat r) (val96 (b0 # b1 # rest)) (st \<noteq> 0)"
proof -
  obtain k where k: "unat d = 2 * k" using assms by (auto elim: evenE)
  have u: "unat (drop_bit 1 d) = k" using unat_drop_bit_1 [of d] k by simp
  have a: "(drop_bit 1 d < r) = (unat d < 2 * unat r)"
    unfolding word_less_nat_alt u k by auto
  have b: "(r = drop_bit 1 d) = (2 * unat r = unat d)"
    unfolding word_unat_eq_iff u k by auto
  show ?thesis
    unfolding ScaleResult_roundup_def rounds_up_def a b odd_val96
    by (simp add: round_bit)
qed

lemma Add96By32_u64_carry:
  "fst (Add96By32_u64 (b0 # b1 # rest) 1) = (\<not> val96 (b0 # b1 # rest) + 1 < 2 ^ 96)"
  using Add96By32_u64_val [of b0 b1 rest] val96_bound [of "b0 # b1 # rest"]
    val96_bound [of "snd (Add96By32_u64 (b0 # b1 # rest) 1)"]
  by (auto split: if_splits)

lemma Add96By32_u64_no_carry:
  "val96 (b0 # b1 # rest) + 1 < 2 ^ 96 \<Longrightarrow>
   val96 (snd (Add96By32_u64 (b0 # b1 # rest) 1)) = val96 (b0 # b1 # rest) + 1"
  using Add96By32_u64_val [of b0 b1 rest] Add96By32_u64_carry [of b0 b1 rest]
  by (auto split: if_splits)

lemma Add96By32_u64_carry_buffer:
  assumes "\<not> val96 (b0 # b1 # rest) + 1 < 2 ^ 96" and "hi32 b1 = 0"
  shows "snd (Add96By32_u64 (b0 # b1 # rest) 1) = 0 # 0 # rest"
proof -
  define lo where "lo = snd (AddCarry64 False b0 (ucast (1::u32)))"
  define l1 where
    "l1 = snd (AddCarry32 (fst (AddCarry64 False b0 (ucast (1::u32)))) (low32 b1) 0)"
  have e: "snd (Add96By32_u64 (b0 # b1 # rest) 1) = lo # set_low32 b1 l1 # rest"
    by (simp add: Add96By32_u64_cons lo_def l1_def)
  have "fst (Add96By32_u64 (b0 # b1 # rest) 1)"
    using assms(1) by (simp add: Add96By32_u64_carry)
  then have "val96 (snd (Add96By32_u64 (b0 # b1 # rest) 1)) + 2 ^ 96 = val96 (b0 # b1 # rest) + 1"
    using Add96By32_u64_val [of b0 b1 rest] by simp
  then have "val96 (lo # set_low32 b1 l1 # rest) = 0"
    using val96_bound [of "b0 # b1 # rest"] unfolding e by simp
  then have "unat l1 = 0" "unat lo = 0"
    by (simp_all add: val96_def low32_set_low32)
  then have z: "l1 = 0" "lo = 0" by (simp_all add: unat_eq_0)
  have "set_low32 b1 0 = 0"
    using assms(2) by (simp add: set_low32_def make64_def)
  then show ?thesis by (simp add: e z)
qed

lemma ReduceScale_example: "ReduceScale [15, 0, 0] 0 1 = (5, [1, 0, 0], 0, 10, - 8)"
  by (simp add: ReduceScale_def ReduceScale_loop.simps [of _ "- 1"] DivMod64By32InPlace_def
        DivMod64By32_def make64_def hi32_def low32_def set_low32_def set_hi32_def
        rgulPower10_64_def POWER10_MAX32_def Let_def)

section \<open>Properties\<close>

subsection \<open>Subtraction of equal operands\<close>

text \<open>
  C9. Subtracting 0.5 from 0.5 (mantissa 5, scale 1, sign clear on both sides) in
  subtract mode succeeds with the value zero and a clear sign. The claim gives the
  result scale 2; the equal-scale branch copies \<^verbatim>\<open>signscale\<close> of the left
  operand, so the result has the common scale 1. The first theorem evaluates the call and
  shows that the stored scale is not 2; the second is the claim with the scale put right,
  for every content of the result slot.
\<close>

theorem C9_sub_half_half_scale_not_2:
  "DecimalSub \<lparr>wReserved = 0, scale = 1, sign = 0, Hi32 = 0, Lo64 = 5\<rparr>
     \<lparr>wReserved = 0, scale = 1, sign = 0, Hi32 = 0, Lo64 = 5\<rparr>
     \<lparr>wReserved = 0, scale = 0, sign = 0, Hi32 = 0, Lo64 = 0\<rparr>
   = Some (NOERROR, \<lparr>wReserved = 0, scale = 1, sign = 0, Hi32 = 0, Lo64 = 0\<rparr>) \<and>
   scale \<lparr>wReserved = 0, scale = 1, sign = 0, Hi32 = 0, Lo64 = 0\<rparr> \<noteq> 2"
  by (simp add: DecimalSub_def DecimalAddSub_def AlignedAdd_def DECIMAL_NEG_def
        SubBorrow64_def SubBorrow32_def)

theorem C9_sub_half_half:
  "DecimalSub \<lparr>wReserved = 0, scale = 1, sign = 0, Hi32 = 0, Lo64 = 5\<rparr>
     \<lparr>wReserved = 0, scale = 1, sign = 0, Hi32 = 0, Lo64 = 5\<rparr> pdecRes
   = Some (NOERROR, pdecRes\<lparr>scale := 1, sign := 0, Lo64 := 0, Hi32 := 0\<rparr>) \<and>
   mantissa (pdecRes\<lparr>scale := 1, sign := 0, Lo64 := 0, Hi32 := 0\<rparr>) = 0"
  by (simp add: DecimalSub_def DecimalAddSub_def AlignedAdd_def DECIMAL_NEG_def
        SubBorrow64_def SubBorrow32_def mantissa_def)

theorem C9_sub_half_half_witness:
  "DecimalSub \<lparr>wReserved = 0, scale = 1, sign = 0, Hi32 = 0, Lo64 = 5\<rparr>
     \<lparr>wReserved = 0, scale = 1, sign = 0, Hi32 = 0, Lo64 = 5\<rparr>
     \<lparr>wReserved = 7, scale = 9, sign = 128, Hi32 = 3, Lo64 = 4\<rparr>
   = Some (NOERROR, \<lparr>wReserved = 7, scale = 1, sign = 0, Hi32 = 0, Lo64 = 0\<rparr>)"
  using C9_sub_half_half [of "\<lparr>wReserved = 7, scale = 9, sign = 128, Hi32 = 3, Lo64 = 4\<rparr>"]
  by simp

text \<open>
  C10. For operands with the same mantissa, the same scale and the same sign byte, the
  sign bit set, \<^verbatim>\<open>DecimalSub\<close> succeeds and stores mantissa zero, the common scale
  and the sign byte of the operands: a zero with the sign bit set is a final result.
\<close>

theorem C10_sub_equal_negative:
  assumes "Hi32 R = Hi32 L" and "Lo64 R = Lo64 L" and "scale R = scale L"
    and "sign R = sign L" and "sign L AND DECIMAL_NEG \<noteq> 0"
  shows "DecimalSub L R pdecRes
           = Some (NOERROR, pdecRes\<lparr>scale := scale L, sign := sign L, Lo64 := 0, Hi32 := 0\<rparr>) \<and>
         mantissa (pdecRes\<lparr>scale := scale L, sign := sign L, Lo64 := 0, Hi32 := 0\<rparr>) = 0 \<and>
         sign (pdecRes\<lparr>scale := scale L, sign := sign L, Lo64 := 0, Hi32 := 0\<rparr>) AND DECIMAL_NEG \<noteq> 0"
  using assms
  by (simp add: DecimalSub_def DecimalAddSub_def AlignedAdd_def DECIMAL_NEG_def
        SubBorrow64_def SubBorrow32_def mantissa_def)

theorem C10_sub_equal_negative_witness:
  "DecimalSub \<lparr>wReserved = 0, scale = 3, sign = 128, Hi32 = 7, Lo64 = 12345\<rparr>
     \<lparr>wReserved = 0, scale = 3, sign = 128, Hi32 = 7, Lo64 = 12345\<rparr>
     \<lparr>wReserved = 0, scale = 0, sign = 0, Hi32 = 0, Lo64 = 0\<rparr>
   = Some (NOERROR, \<lparr>wReserved = 0, scale = 3, sign = 128, Hi32 = 0, Lo64 = 0\<rparr>)"
  using C10_sub_equal_negative
    [of "\<lparr>wReserved = 0, scale = 3, sign = 128, Hi32 = 7, Lo64 = 12345\<rparr>"
        "\<lparr>wReserved = 0, scale = 3, sign = 128, Hi32 = 7, Lo64 = 12345\<rparr>"
        "\<lparr>wReserved = 0, scale = 0, sign = 0, Hi32 = 0, Lo64 = 0\<rparr>"]
  by (simp add: DECIMAL_NEG_def)

subsection \<open>Division of 1.0 by 1\<close>

text \<open>
  C4. Dividing 1.0 (mantissa 10, scale 1) by 1 (mantissa 1, scale 0). The claim expects
  mantissa 1 with scale 0. The first division leaves no remainder, so the loop is left
  at once with \<^verbatim>\<open>fUnscale\<close> still false and the trailing zero is not removed:
  the result is mantissa 10 with scale 1. The first theorem evaluates the call and shows
  that the result is not mantissa 1, scale 0; the second is the amended claim for every
  content of the result slot.
\<close>

theorem C4_div_1_0_by_1_not_unscaled:
  "DecimalDiv \<lparr>wReserved = 0, scale = 1, sign = 0, Hi32 = 0, Lo64 = 10\<rparr>
     \<lparr>wReserved = 0, scale = 0, sign = 0, Hi32 = 0, Lo64 = 1\<rparr>
     \<lparr>wReserved = 0, scale = 0, sign = 0, Hi32 = 0, Lo64 = 0\<rparr>
   = Some (NOERROR, \<lparr>wReserved = 0, scale = 1, sign = 0, Hi32 = 0, Lo64 = 10\<rparr>) \<and>
   \<lparr>wReserved = 0, scale = 1, sign = 0, Hi32 = 0, Lo64 = 10\<rparr>
     \<noteq> \<lparr>wReserved = 0, scale = 0, sign = 0, Hi32 = 0, Lo64 = 1\<rparr>"
  apply (simp add: DecimalDiv_def wr64_def rd64_def low32_def hi32_def make64_def
      FitsIn32Bit_def Div96By32_x64_def DivMod64By32InPlace_def DivMod64By32_def
      DivMod32By32_def Let_def)
  apply (subst Div32_loop.simps)
  apply (simp add: Div32_pass_def Div_finish_def rd64_def make64_def)
  done

theorem C4_div_1_0_by_1:
  "DecimalDiv \<lparr>wReserved = 0, scale = 1, sign = 0, Hi32 = 0, Lo64 = 10\<rparr>
     \<lparr>wReserved = 0, scale = 0, sign = 0, Hi32 = 0, Lo64 = 1\<rparr> pdecRes
   = Some (NOERROR, pdecRes\<lparr>Hi32 := 0, scale := 1, sign := 0, Lo64 := 10\<rparr>) \<and>
   mantissa (pdecRes\<lparr>Hi32 := 0, scale := 1, sign := 0, Lo64 := 10\<rparr>) = 10"
  apply (simp add: DecimalDiv_def wr64_def rd64_def low32_def hi32_def make64_def
      FitsIn32Bit_def Div96By32_x64_def DivMod64By32InPlace_def DivMod64By32_def
      DivMod32By32_def Let_def mantissa_def)
  apply (subst Div32_loop.simps)
  apply (simp add: Div32_pass_def Div_finish_def rd64_def make64_def)
  done

theorem C4_div_1_0_by_1_witness:
  "DecimalDiv \<lparr>wReserved = 0, scale = 1, sign = 0, Hi32 = 0, Lo64 = 10\<rparr>
     \<lparr>wReserved = 0, scale = 0, sign = 0, Hi32 = 0, Lo64 = 1\<rparr>
     \<lparr>wReserved = 7, scale = 9, sign = 128, Hi32 = 3, Lo64 = 4\<rparr>
   = Some (NOERROR, \<lparr>wReserved = 7, scale = 1, sign = 0, Hi32 = 0, Lo64 = 10\<rparr>)"
  using C4_div_1_0_by_1 [of "\<lparr>wReserved = 7, scale = 9, sign = 128, Hi32 = 3, Lo64 = 4\<rparr>"]
  by simp


subsection \<open>SearchScale64\<close>

text \<open>
  C3. For a non-zero 96-bit quotient and a scale in -28..28, \<^verbatim>\<open>SearchScale64\<close>
  works with the largest \<open>k\<close> in 0..19 such that the quotient times \<open>10 ^ k\<close>
  fits in 96 bits and the scale plus \<open>k\<close> is at most 28. The claim has it return -1
  exactly when no such \<open>k\<close> brings the scale up to 0. The code returns -1 only when
  in addition that largest \<open>k\<close> is below 19: when the power is capped at 19 it is
  returned although the scale stays negative, and the caller scales again in its next
  round. The first theorem is the quotient 1 at scale -25, where no power up to 19
  reaches scale 0 and 19 is returned; the second is the amended claim.
\<close>

theorem C3_SearchScale64_returns_19_below_zero:
  "SearchScale64 [1, 0, 0, 0] (- 25) = 19 \<and> quo96 [1, 0, 0, 0] = 1 \<and> (- 25 :: int) + 19 < 0"
  by (simp add: SearchScale64_def DEC_SCALE_MAX_def OVFL_MAX32_1_HI_def
        SEARCHSCALE_MAX_SCALE_def POWER10_MAX64_def SearchScale_search_def
        SearchScale_HaveScale_def quo96_def)

theorem C3_SearchScale64_max_power:
  assumes "- 28 \<le> s" and "s \<le> 28" and "quo96 q \<noteq> 0"
  shows "\<exists>k. max_scale_power (quo96 q) s k \<and>
             SearchScale64 q s = (if int k + s < 0 \<and> k \<noteq> 19 then - 1 else int k)"
proof -
  obtain k where k: "max_scale_power (quo96 q) s k"
      "SearchScale64 q s = SearchScale_HaveScale (int k) s"
    using SearchScale64_max [OF assms(2), of q] by blast
  have "SearchScale_HaveScale (int k) s = (if int k + s < 0 \<and> k \<noteq> 19 then - 1 else int k)"
    by (simp add: SearchScale_HaveScale_def SEARCHSCALE_MAX_SCALE_def POWER10_MAX64_def)
  with k show ?thesis by auto
qed


theorem C3_SearchScale64_max_power_witness:
  "SearchScale64 [0xFFFFFFFF, 0xFFFFFFFF, 3, 0] 0 = 9 \<and>
   max_scale_power (quo96 [0xFFFFFFFF, 0xFFFFFFFF, 3, 0]) 0 9"
proof -
  have e: "SearchScale64 [0xFFFFFFFF, 0xFFFFFFFF, 3, 0] 0 = 9"
    by (simp add: SearchScale64_def DEC_SCALE_MAX_def OVFL_MAX32_1_HI_def
          SEARCHSCALE_MAX_SCALE_def POWER10_MAX64_def SearchScale_search_def
          SearchScale_HaveScale_def SearchScale_UpperEq_def BitScanMsb64_def
          msb_index.simps PowerOvfl_def)
  have n: "quo96 [0xFFFFFFFF, 0xFFFFFFFF, 3, 0] \<noteq> 0" by (simp add: quo96_def)
  obtain k where k: "max_scale_power (quo96 [0xFFFFFFFF, 0xFFFFFFFF, 3, 0]) 0 k"
      "SearchScale64 [0xFFFFFFFF, 0xFFFFFFFF, 3, 0] 0 = (if int k + 0 < 0 \<and> k \<noteq> 19 then - 1 else int k)"
    using C3_SearchScale64_max_power [of 0 "[0xFFFFFFFF, 0xFFFFFFFF, 3, 0]", OF _ _ n] by auto
  from k(2) e have "k = 9" by simp
  with k(1) e show ?thesis by simp
qed

subsection \<open>Division by zero\<close>

text \<open>
  C6. \<^verbatim>\<open>DecimalDiv\<close> returns \<^verbatim>\<open>DISP_E_DIVBYZERO\<close> exactly when the
  96-bit mantissa of the divisor is zero, whatever the dividend, the result slot and the
  scale and sign of the divisor: with a zero mantissa it returns this error and leaves the
  slot as it was, with another mantissa it never returns it. \<^verbatim>\<open>DecimalAdd\<close>,
  \<^verbatim>\<open>DecimalSub\<close> and \<^verbatim>\<open>DecimalMul\<close> never return it.
\<close>

theorem C6_divide_by_zero:
  "(mantissa R = 0 \<longrightarrow> DecimalDiv L R res = Some (DISP_E_DIVBYZERO, res)) \<and>
   (mantissa R \<noteq> 0 \<longrightarrow> DecimalDiv L R res \<noteq> Some (DISP_E_DIVBYZERO, r)) \<and>
   DecimalAdd L R res \<noteq> Some (DISP_E_DIVBYZERO, r) \<and>
   DecimalSub L R res \<noteq> Some (DISP_E_DIVBYZERO, r) \<and>
   DecimalMul L R res \<noteq> Some (DISP_E_DIVBYZERO, r)"
  using DecimalDiv_zero_divisor DecimalDiv_nonzero_divisor DecimalMul_no_divbyzero
    DecimalAddSub_no_divbyzero [of 0] DecimalAddSub_no_divbyzero [of DECIMAL_NEG]
  by (simp add: DecimalAdd_def DecimalSub_def NEG_and_7F)

theorem C6_divide_by_zero_witness:
  "mantissa \<lparr>wReserved = 0, scale = 5, sign = 128, Hi32 = 0, Lo64 = 0\<rparr> = 0 \<and>
   DecimalDiv \<lparr>wReserved = 0, scale = 0, sign = 0, Hi32 = 0, Lo64 = 7\<rparr>
     \<lparr>wReserved = 0, scale = 5, sign = 128, Hi32 = 0, Lo64 = 0\<rparr>
     \<lparr>wReserved = 0, scale = 0, sign = 0, Hi32 = 0, Lo64 = 0\<rparr>
   = Some (DISP_E_DIVBYZERO, \<lparr>wReserved = 0, scale = 0, sign = 0, Hi32 = 0, Lo64 = 0\<rparr>) \<and>
   mantissa \<lparr>wReserved = 0, scale = 0, sign = 0, Hi32 = 1, Lo64 = 0\<rparr> \<noteq> 0 \<and>
   DecimalDiv \<lparr>wReserved = 0, scale = 0, sign = 0, Hi32 = 0, Lo64 = 7\<rparr>
     \<lparr>wReserved = 0, scale = 0, sign = 0, Hi32 = 1, Lo64 = 0\<rparr>
     \<lparr>wReserved = 0, scale = 0, sign = 0, Hi32 = 0, Lo64 = 0\<rparr>
   \<noteq> Some (DISP_E_DIVBYZERO, \<lparr>wReserved = 0, scale = 0, sign = 0, Hi32 = 0, Lo64 = 0\<rparr>)"
  using C6_divide_by_zero
    [of "\<lparr>wReserved = 0, scale = 5, sign = 128, Hi32 = 0, Lo64 = 0\<rparr>"
        "\<lparr>wReserved = 0, scale = 0, sign = 0, Hi32 = 0, Lo64 = 7\<rparr>"
        "\<lparr>wReserved = 0, scale = 0, sign = 0, Hi32 = 0, Lo64 = 0\<rparr>"
        "\<lparr>wReserved = 0, scale = 0, sign = 0, Hi32 = 0, Lo64 = 0\<rparr>"]
    C6_divide_by_zero
    [of "\<lparr>wReserved = 0, scale = 0, sign = 0, Hi32 = 1, Lo64 = 0\<rparr>"
        "\<lparr>wReserved = 0, scale = 0, sign = 0, Hi32 = 0, Lo64 = 7\<rparr>"
        "\<lparr>wReserved = 0, scale = 0, sign = 0, Hi32 = 0, Lo64 = 0\<rparr>"
        "\<lparr>wReserved = 0, scale = 0, sign = 0, Hi32 = 0, Lo64 = 0\<rparr>"]
  by (simp add: mantissa_def)

subsection \<open>The sign of a product and of a quotient\<close>

text \<open>
  C5. The sign byte of a successful \<^verbatim>\<open>DecimalDiv\<close> is
  \<^verbatim>\<open>sign(L) ^ sign(R)\<close>. For \<^verbatim>\<open>DecimalMul\<close> the claim fails on the
  path through \<^verbatim>\<open>ReturnZero\<close>, which clears the whole result and returns
  \<^verbatim>\<open>NOERROR\<close>: the product of two operands with mantissa 1 and scale 28, the
  left one negative, is stored with a clear sign, as the first theorem shows by evaluation.
  The second theorem is the claim with this path singled out by its operands
  (\<open>Mul_ReturnZero\<close>): for these \<^verbatim>\<open>DecimalMul\<close> succeeds and the result is
  the cleared slot; for all others the sign byte of a successful product is
  \<^verbatim>\<open>sign(L) ^ sign(R)\<close>, also when the product is rounded to a zero mantissa
  by the division at scale 28.
\<close>

theorem C5_mul_tiny_operands_sign_clear:
  "DecimalMul \<lparr>wReserved = 0, scale = 28, sign = 128, Hi32 = 0, Lo64 = 1\<rparr>
     \<lparr>wReserved = 0, scale = 28, sign = 0, Hi32 = 0, Lo64 = 1\<rparr>
     \<lparr>wReserved = 0, scale = 0, sign = 0, Hi32 = 0, Lo64 = 0\<rparr>
   = Some (NOERROR, \<lparr>wReserved = 0, scale = 0, sign = 0, Hi32 = 0, Lo64 = 0\<rparr>) \<and>
   sign \<lparr>wReserved = 0, scale = 0, sign = 0, Hi32 = 0, Lo64 = 0\<rparr>
     \<noteq> sign \<lparr>wReserved = 0, scale = 28, sign = 128, Hi32 = 0, Lo64 = 1\<rparr>
         XOR sign \<lparr>wReserved = 0, scale = 28, sign = 0, Hi32 = 0, Lo64 = 1\<rparr>"
  by (simp add: DecimalMul_def Mul64By64_def DEC_SCALE_MAX_def DECIMAL_SETZERO_def Let_def)

theorem C5_sign_law:
  "(Mul_ReturnZero L R \<longrightarrow> DecimalMul L R res = Some (NOERROR, DECIMAL_SETZERO res)) \<and>
   (DecimalMul L R res = Some (NOERROR, rm) \<longrightarrow>
      (if Mul_ReturnZero L R then rm = DECIMAL_SETZERO res
       else sign rm = sign L XOR sign R)) \<and>
   (DecimalDiv L R res = Some (NOERROR, rd) \<longrightarrow> sign rd = sign L XOR sign R)"
  using DecimalMul_ReturnZero [of L R res] DecimalMul_sign [of L R res rm]
    DecimalDiv_result [of L R res rd]
  by auto

theorem C5_sign_law_witness:
  "\<not> Mul_ReturnZero \<lparr>wReserved = 0, scale = 1, sign = 128, Hi32 = 0, Lo64 = 6\<rparr>
     \<lparr>wReserved = 0, scale = 1, sign = 0, Hi32 = 0, Lo64 = 3\<rparr> \<and>
   DecimalMul \<lparr>wReserved = 0, scale = 1, sign = 128, Hi32 = 0, Lo64 = 6\<rparr>
     \<lparr>wReserved = 0, scale = 1, sign = 0, Hi32 = 0, Lo64 = 3\<rparr>
     \<lparr>wReserved = 7, scale = 9, sign = 1, Hi32 = 3, Lo64 = 4\<rparr>
   = Some (NOERROR, \<lparr>wReserved = 7, scale = 2, sign = 128, Hi32 = 0, Lo64 = 18\<rparr>) \<and>
   sign \<lparr>wReserved = 7, scale = 2, sign = 128, Hi32 = 0, Lo64 = 18\<rparr> = 128 XOR 0 \<and>
   DecimalDiv \<lparr>wReserved = 0, scale = 1, sign = 128, Hi32 = 0, Lo64 = 6\<rparr>
     \<lparr>wReserved = 0, scale = 1, sign = 0, Hi32 = 0, Lo64 = 3\<rparr>
     \<lparr>wReserved = 7, scale = 9, sign = 1, Hi32 = 3, Lo64 = 4\<rparr>
   = Some (NOERROR, \<lparr>wReserved = 7, scale = 0, sign = 128, Hi32 = 0, Lo64 = 2\<rparr>) \<and>
   sign \<lparr>wReserved = 7, scale = 0, sign = 128, Hi32 = 0, Lo64 = 2\<rparr> = 128 XOR 0 \<and>
   Mul_ReturnZero \<lparr>wReserved = 0, scale = 28, sign = 128, Hi32 = 0, Lo64 = 1\<rparr>
     \<lparr>wReserved = 0, scale = 28, sign = 0, Hi32 = 0, Lo64 = 1\<rparr> \<and>
   DecimalMul \<lparr>wReserved = 0, scale = 28, sign = 128, Hi32 = 0, Lo64 = 1\<rparr>
     \<lparr>wReserved = 0, scale = 28, sign = 0, Hi32 = 0, Lo64 = 1\<rparr>
     \<lparr>wReserved = 7, scale = 9, sign = 1, Hi32 = 3, Lo64 = 4\<rparr>
   = Some (NOERROR, \<lparr>wReserved = 0, scale = 0, sign = 0, Hi32 = 0, Lo64 = 0\<rparr>) \<and>
   \<not> Mul_ReturnZero \<lparr>wReserved = 0, scale = 28, sign = 128, Hi32 = 0, Lo64 = 1\<rparr>
     \<lparr>wReserved = 0, scale = 19, sign = 0, Hi32 = 0, Lo64 = 1\<rparr> \<and>
   DecimalMul \<lparr>wReserved = 0, scale = 28, sign = 128, Hi32 = 0, Lo64 = 1\<rparr>
     \<lparr>wReserved = 0, scale = 19, sign = 0, Hi32 = 0, Lo64 = 1\<rparr>
     \<lparr>wReserved = 7, scale = 9, sign = 1, Hi32 = 3, Lo64 = 4\<rparr>
   = Some (NOERROR, \<lparr>wReserved = 7, scale = 28, sign = 128, Hi32 = 0, Lo64 = 0\<rparr>) \<and>
   sign \<lparr>wReserved = 7, scale = 28, sign = 128, Hi32 = 0, Lo64 = 0\<rparr> = 128 XOR 0"
  using C5_sign_law
    [where L = "\<lparr>wReserved = 0, scale = 1, sign = 128, Hi32 = 0, Lo64 = 6\<rparr>"
       and R = "\<lparr>wReserved = 0, scale = 1, sign = 0, Hi32 = 0, Lo64 = 3\<rparr>"
       and res = "\<lparr>wReserved = 7, scale = 9, sign = 1, Hi32 = 3, Lo64 = 4\<rparr>"
       and rm = "\<lparr>wReserved = 7, scale = 2, sign = 128, Hi32 = 0, Lo64 = 18\<rparr>"
       and rd = "\<lparr>wReserved = 7, scale = 0, sign = 128, Hi32 = 0, Lo64 = 2\<rparr>"]
    C5_sign_law
    [where L = "\<lparr>wReserved = 0, scale = 28, sign = 128, Hi32 = 0, Lo64 = 1\<rparr>"
       and R = "\<lparr>wReserved = 0, scale = 28, sign = 0, Hi32 = 0, Lo64 = 1\<rparr>"
       and res = "\<lparr>wReserved = 7, scale = 9, sign = 1, Hi32 = 3, Lo64 = 4\<rparr>"
       and rm = "\<lparr>wReserved = 0, scale = 0, sign = 0, Hi32 = 0, Lo64 = 0\<rparr>"
       and rd = "\<lparr>wReserved = 0, scale = 0, sign = 0, Hi32 = 0, Lo64 = 0\<rparr>"]
    C5_sign_law
    [where L = "\<lparr>wReserved = 0, scale = 28, sign = 128, Hi32 = 0, Lo64 = 1\<rparr>"
       and R = "\<lparr>wReserved = 0, scale = 19, sign = 0, Hi32 = 0, Lo64 = 1\<rparr>"
       and res = "\<lparr>wReserved = 7, scale = 9, sign = 1, Hi32 = 3, Lo64 = 4\<rparr>"
       and rm = "\<lparr>wReserved = 7, scale = 28, sign = 128, Hi32 = 0, Lo64 = 0\<rparr>"
       and rd = "\<lparr>wReserved = 0, scale = 0, sign = 0, Hi32 = 0, Lo64 = 0\<rparr>"]
    DecimalMul_example DecimalDiv_example Mul_ReturnZero_example Mul_ReturnZero_tiny
    DecimalMul_rounded_example
  by (simp add: DECIMAL_SETZERO_def)

subsection \<open>Invariants of the results\<close>

text \<open>
  C1. For operands with a scale of at most 28 and clean sign bytes (and
  \<^verbatim>\<open>bSign\<close> 0 or \<^verbatim>\<open>DECIMAL_NEG\<close>), a result
  that \<^verbatim>\<open>DecimalMul\<close>, \<^verbatim>\<open>DecimalAddSub\<close> or \<^verbatim>\<open>DecimalDiv\<close>
  returns with \<^verbatim>\<open>NOERROR\<close> has a scale of at most 28, a mantissa below
  \<open>2^96\<close> and the reserved bits of the sign byte zero. The three functions do not
  write \<^verbatim>\<open>wReserved\<close>: the result has there what the slot held before the
  call (the path of \<^verbatim>\<open>DecimalMul\<close> through \<^verbatim>\<open>ReturnZero\<close> clears
  it), so the reserved bits of the result are not zero in general, as the first theorem
  shows by evaluation on a slot with \<^verbatim>\<open>wReserved = 1\<close>. The callers
  \<^verbatim>\<open>DoMultiply\<close>, \<^verbatim>\<open>DoAddSub\<close> and \<^verbatim>\<open>DoDivide\<close> clear
  \<^verbatim>\<open>wReserved\<close> after the copy, and the value they produce has all three
  invariants.
\<close>

theorem C1_mul_keeps_slot_wReserved:
  "DecimalMul \<lparr>wReserved = 0, scale = 0, sign = 0, Hi32 = 0, Lo64 = 1\<rparr>
     \<lparr>wReserved = 0, scale = 0, sign = 0, Hi32 = 0, Lo64 = 1\<rparr>
     \<lparr>wReserved = 1, scale = 0, sign = 0, Hi32 = 0, Lo64 = 0\<rparr>
   = Some (NOERROR, \<lparr>wReserved = 1, scale = 0, sign = 0, Hi32 = 0, Lo64 = 1\<rparr>) \<and>
   wReserved \<lparr>wReserved = 1, scale = 0, sign = 0, Hi32 = 0, Lo64 = 1\<rparr> \<noteq> 0"
  by (simp add: DecimalMul_def Mul64By64_def Mul_finish_def DEC_SCALE_MAX_def Let_def)

theorem C1_result_invariants:
  assumes "uint (scale L) \<le> 28" and "uint (scale R) \<le> 28"
    and "sign L AND 0x7F = 0" and "sign R AND 0x7F = 0" and "bSign AND 0x7F = 0"
  shows "(DecimalMul L R res = Some (NOERROR, rm) \<longrightarrow>
            result_fields_ok rm \<and> (wReserved rm = wReserved res \<or> wReserved rm = 0)) \<and>
         (DecimalAddSub L R res bSign = Some (NOERROR, ra) \<longrightarrow>
            result_fields_ok ra \<and> wReserved ra = wReserved res) \<and>
         (DecimalDiv L R res = Some (NOERROR, rd) \<longrightarrow>
            result_fields_ok rd \<and> wReserved rd = wReserved res) \<and>
         (DoMultiply L R res = Some (dm, False) \<longrightarrow> decimal_invariant dm) \<and>
         (DoAddSub L R bSign res = Some (da, False) \<longrightarrow> decimal_invariant da) \<and>
         (DoDivide L R res = Some (Inr (dd, False)) \<longrightarrow> decimal_invariant dd)"
proof (intro conjI impI)
  assume "DecimalMul L R res = Some (NOERROR, rm)"
  from DecimalMul_fields [OF this assms(3,4)]
  show "result_fields_ok rm" "wReserved rm = wReserved res \<or> wReserved rm = 0" by simp_all
next
  assume "DecimalAddSub L R res bSign = Some (NOERROR, ra)"
  from DecimalAddSub_fields [OF this assms(1,2,3,5)]
  show "result_fields_ok ra" "wReserved ra = wReserved res" by simp_all
next
  assume "DecimalDiv L R res = Some (NOERROR, rd)"
  from DecimalDiv_fields [OF this assms(1,3,4)]
  show "result_fields_ok rd" "wReserved rd = wReserved res" by simp_all
next
  assume "DoMultiply L R res = Some (dm, False)"
  then obtain r where r: "DecimalMul L R res = Some (NOERROR, r)" "dm = r\<lparr>wReserved := 0\<rparr>"
    unfolding DoMultiply_success by blast
  from DecimalMul_fields [OF r(1) assms(3,4)] r(2)
  show "decimal_invariant dm" by (simp add: decimal_invariant_def result_fields_ok_wReserved)
next
  assume "DoAddSub L R bSign res = Some (da, False)"
  then obtain r where r: "DecimalAddSub L R res bSign = Some (NOERROR, r)" "da = r\<lparr>wReserved := 0\<rparr>"
    unfolding DoAddSub_success by blast
  from DecimalAddSub_fields [OF r(1) assms(1,2,3,5)] r(2)
  show "decimal_invariant da" by (simp add: decimal_invariant_def result_fields_ok_wReserved)
next
  assume "DoDivide L R res = Some (Inr (dd, False))"
  then obtain r where r: "DecimalDiv L R res = Some (NOERROR, r)" "dd = r\<lparr>wReserved := 0\<rparr>"
    unfolding DoDivide_success by blast
  from DecimalDiv_fields [OF r(1) assms(1,3,4)] r(2)
  show "decimal_invariant dd" by (simp add: decimal_invariant_def result_fields_ok_wReserved)
qed

theorem C1_result_invariants_witness:
  "DecimalMul \<lparr>wReserved = 0, scale = 1, sign = 128, Hi32 = 0, Lo64 = 6\<rparr>
     \<lparr>wReserved = 0, scale = 1, sign = 0, Hi32 = 0, Lo64 = 3\<rparr>
     \<lparr>wReserved = 7, scale = 9, sign = 1, Hi32 = 3, Lo64 = 4\<rparr>
   = Some (NOERROR, \<lparr>wReserved = 7, scale = 2, sign = 128, Hi32 = 0, Lo64 = 18\<rparr>) \<and>
   result_fields_ok \<lparr>wReserved = 7, scale = 2, sign = 128, Hi32 = 0, Lo64 = 18\<rparr> \<and>
   DecimalAddSub \<lparr>wReserved = 0, scale = 1, sign = 128, Hi32 = 0, Lo64 = 6\<rparr>
     \<lparr>wReserved = 0, scale = 1, sign = 0, Hi32 = 0, Lo64 = 3\<rparr>
     \<lparr>wReserved = 7, scale = 9, sign = 1, Hi32 = 3, Lo64 = 4\<rparr> 0
   = Some (NOERROR, \<lparr>wReserved = 7, scale = 1, sign = 128, Hi32 = 0, Lo64 = 3\<rparr>) \<and>
   result_fields_ok \<lparr>wReserved = 7, scale = 1, sign = 128, Hi32 = 0, Lo64 = 3\<rparr> \<and>
   DecimalDiv \<lparr>wReserved = 0, scale = 1, sign = 128, Hi32 = 0, Lo64 = 6\<rparr>
     \<lparr>wReserved = 0, scale = 1, sign = 0, Hi32 = 0, Lo64 = 3\<rparr>
     \<lparr>wReserved = 7, scale = 9, sign = 1, Hi32 = 3, Lo64 = 4\<rparr>
   = Some (NOERROR, \<lparr>wReserved = 7, scale = 0, sign = 128, Hi32 = 0, Lo64 = 2\<rparr>) \<and>
   result_fields_ok \<lparr>wReserved = 7, scale = 0, sign = 128, Hi32 = 0, Lo64 = 2\<rparr> \<and>
   DoMultiply \<lparr>wReserved = 0, scale = 1, sign = 128, Hi32 = 0, Lo64 = 6\<rparr>
     \<lparr>wReserved = 0, scale = 1, sign = 0, Hi32 = 0, Lo64 = 3\<rparr>
     \<lparr>wReserved = 7, scale = 9, sign = 1, Hi32 = 3, Lo64 = 4\<rparr>
   = Some (\<lparr>wReserved = 0, scale = 2, sign = 128, Hi32 = 0, Lo64 = 18\<rparr>, False) \<and>
   decimal_invariant \<lparr>wReserved = 0, scale = 2, sign = 128, Hi32 = 0, Lo64 = 18\<rparr> \<and>
   DoAddSub \<lparr>wReserved = 0, scale = 1, sign = 128, Hi32 = 0, Lo64 = 6\<rparr>
     \<lparr>wReserved = 0, scale = 1, sign = 0, Hi32 = 0, Lo64 = 3\<rparr> 0
     \<lparr>wReserved = 7, scale = 9, sign = 1, Hi32 = 3, Lo64 = 4\<rparr>
   = Some (\<lparr>wReserved = 0, scale = 1, sign = 128, Hi32 = 0, Lo64 = 3\<rparr>, False) \<and>
   decimal_invariant \<lparr>wReserved = 0, scale = 1, sign = 128, Hi32 = 0, Lo64 = 3\<rparr> \<and>
   DoDivide \<lparr>wReserved = 0, scale = 1, sign = 128, Hi32 = 0, Lo64 = 6\<rparr>
     \<lparr>wReserved = 0, scale = 1, sign = 0, Hi32 = 0, Lo64 = 3\<rparr>
     \<lparr>wReserved = 7, scale = 9, sign = 1, Hi32 = 3, Lo64 = 4\<rparr>
   = Some (Inr (\<lparr>wReserved = 0, scale = 0, sign = 128, Hi32 = 0, Lo64 = 2\<rparr>, False)) \<and>
   decimal_invariant \<lparr>wReserved = 0, scale = 0, sign = 128, Hi32 = 0, Lo64 = 2\<rparr>"
  using C1_result_invariants
    [where L = "\<lparr>wReserved = 0, scale = 1, sign = 128, Hi32 = 0, Lo64 = 6\<rparr>"
       and R = "\<lparr>wReserved = 0, scale = 1, sign = 0, Hi32 = 0, Lo64 = 3\<rparr>"
       and bSign = 0
       and res = "\<lparr>wReserved = 7, scale = 9, sign = 1, Hi32 = 3, Lo64 = 4\<rparr>"
       and rm = "\<lparr>wReserved = 7, scale = 2, sign = 128, Hi32 = 0, Lo64 = 18\<rparr>"
       and ra = "\<lparr>wReserved = 7, scale = 1, sign = 128, Hi32 = 0, Lo64 = 3\<rparr>"
       and rd = "\<lparr>wReserved = 7, scale = 0, sign = 128, Hi32 = 0, Lo64 = 2\<rparr>"
       and dm = "\<lparr>wReserved = 0, scale = 2, sign = 128, Hi32 = 0, Lo64 = 18\<rparr>"
       and da = "\<lparr>wReserved = 0, scale = 1, sign = 128, Hi32 = 0, Lo64 = 3\<rparr>"
       and dd = "\<lparr>wReserved = 0, scale = 0, sign = 128, Hi32 = 0, Lo64 = 2\<rparr>"]
    DecimalMul_example DecimalAddSub_example DecimalDiv_example
  by (simp add: DoMultiply_def DoAddSub_def DoDivide_def FAILED_def)

subsection \<open>NumberToDecimal on very small numbers\<close>

text \<open>
  C7. The claim: given non-zero digits whose exponent is at most -28 after the digits
  are absorbed, \<^verbatim>\<open>NumberToDecimal\<close> succeeds with mantissa zero and scale 28.
  The code clears the mantissa when \<^verbatim>\<open>e <= -DECIMAL_PRECISION\<close> and stores the
  scale \<^verbatim>\<open>DECIMAL_PRECISION - 1\<close>. The digit string "1" with exponent -27 ends
  at exponent -28 with the digit absorbed. With \<^verbatim>\<open>DECIMAL_PRECISION\<close> 29 the
  result keeps the mantissa 1 (scale 28); with 28 it has mantissa zero and scale 27; and for
  no value of the constant is it a stored zero of scale 28: this is the first theorem. The
  second is the claim put right: when the exponent is at most -28 (no digit is absorbed)
  and at most \<^verbatim>\<open>-DECIMAL_PRECISION\<close>, the function succeeds with mantissa zero,
  the scale \<^verbatim>\<open>DECIMAL_PRECISION - 1\<close> and the sign of the number.
\<close>

theorem C7_exponent_minus_28_keeps_digits:
  "digit_at [49] 0 0 \<noteq> 0 \<and>
   snd (snd (NumberToDecimal_absorb [49] 0
     \<lparr>wReserved = 0, scale = 0, sign = 0, Hi32 = 0, Lo64 = 0\<rparr> 0 (- 27))) = - 28 \<and>
   NumberToDecimal 29 0 \<lparr>number_scale = - 27, number_sign = 0, digits = [49]\<rparr>
     = Some \<lparr>wReserved = 0, scale = 28, sign = 0, Hi32 = 0, Lo64 = 1\<rparr> \<and>
   mantissa \<lparr>wReserved = 0, scale = 28, sign = 0, Hi32 = 0, Lo64 = 1\<rparr> \<noteq> 0 \<and>
   NumberToDecimal 28 0 \<lparr>number_scale = - 27, number_sign = 0, digits = [49]\<rparr>
     = Some \<lparr>wReserved = 0, scale = 27, sign = 0, Hi32 = 0, Lo64 = 0\<rparr> \<and>
   scale \<lparr>wReserved = 0, scale = 27, sign = 0, Hi32 = 0, Lo64 = 0\<rparr> \<noteq> 28 \<and>
   (\<forall>P. \<not> (\<exists>d. NumberToDecimal P 0 \<lparr>number_scale = - 27, number_sign = 0, digits = [49]\<rparr>
                    = Some d \<and> mantissa d = 0 \<and> scale d = 28))"
proof -
  have "\<not> (\<exists>d. NumberToDecimal P 0 \<lparr>number_scale = - 27, number_sign = 0, digits = [49]\<rparr>
                    = Some d \<and> mantissa d = 0 \<and> scale d = 28)" for P
  proof (cases "P < - 27")
    case True
    then show ?thesis by (simp add: NumberToDecimal_1_exponent_minus_27)
  next
    case False
    show ?thesis
    proof (cases "P \<le> 28")
      case True
      then show ?thesis
        using False scale_of_int_not_28 [of P]
        by (simp add: NumberToDecimal_1_exponent_minus_27)
    next
      case f: False
      then show ?thesis
        using False by (auto simp: NumberToDecimal_1_exponent_minus_27 mantissa_def)
    qed
  qed
  then show ?thesis
    by (simp add: NumberToDecimal_1_exponent_minus_27 NumberToDecimal_absorb_1 digit_at_def
          mantissa_def)
qed

theorem C7_tiny_number:
  assumes "digit_at (digits number) front 0 \<noteq> 0"
    and "number_scale number \<le> - 28" and "number_scale number \<le> - P" and "0 \<le> P"
  shows "NumberToDecimal P front number
           = Some \<lparr>wReserved = 0, scale = of_int (P - 1),
                   sign = (if number_sign number \<noteq> 0 then DECIMAL_NEG else 0),
                   Hi32 = 0, Lo64 = 0\<rparr> \<and>
         mantissa \<lparr>wReserved = 0, scale = of_int (P - 1),
                   sign = (if number_sign number \<noteq> 0 then DECIMAL_NEG else 0),
                   Hi32 = 0, Lo64 = 0\<rparr> = 0"
proof -
  have e: "\<not> P < number_scale number" "\<not> 0 < number_scale number"
    using assms(2,4) by simp_all
  show ?thesis
    using assms(1,3) e
    by (simp add: NumberToDecimal_def NumberToDecimal_absorb_none [OF assms(2)]
          DecAddInt32_zero_1 mid32_dec_def low32_dec_def low32_def hi32_def mantissa_def Let_def)
qed

theorem C7_tiny_number_witness:
  "digit_at [57, 49] 0 0 \<noteq> 0 \<and>
   NumberToDecimal 29 0 \<lparr>number_scale = - 40, number_sign = 1, digits = [57, 49]\<rparr>
     = Some \<lparr>wReserved = 0, scale = 28, sign = 128, Hi32 = 0, Lo64 = 0\<rparr>"
  using C7_tiny_number
    [of "\<lparr>number_scale = - 40, number_sign = 1, digits = [57, 49]\<rparr>" 0 29]
  by (simp add: digit_at_def DECIMAL_NEG_def)

subsection \<open>Commutativity of the addition\<close>

text \<open>
  C8. \<^verbatim>\<open>DecimalAdd(L, R)\<close> and \<^verbatim>\<open>DecimalAdd(R, L)\<close> do not always store
  the same value: when the operands have the same scale and mantissa and opposite signs,
  the equal-scale branch subtracts without a borrow and keeps the sign of the left operand,
  so 5 + (-5) is stored with a clear sign and (-5) + 5 with the sign bit set. The first
  theorem evaluates both calls. The second is the claim with this case taken out: for
  operands whose sign bytes are 0 or \<^verbatim>\<open>DECIMAL_NEG\<close>, the two calls return the
  same thing (the same \<^verbatim>\<open>HRESULT\<close> and the same result slot, or neither returns)
  unless the operands cancel in this way, and then the result is a zero with the common
  scale and the sign of the left operand of the call.
\<close>

theorem C8_add_opposite_values_order:
  "DecimalAdd \<lparr>wReserved = 0, scale = 0, sign = 0, Hi32 = 0, Lo64 = 5\<rparr>
     \<lparr>wReserved = 0, scale = 0, sign = 128, Hi32 = 0, Lo64 = 5\<rparr>
     \<lparr>wReserved = 0, scale = 0, sign = 0, Hi32 = 0, Lo64 = 0\<rparr>
   = Some (NOERROR, \<lparr>wReserved = 0, scale = 0, sign = 0, Hi32 = 0, Lo64 = 0\<rparr>) \<and>
   DecimalAdd \<lparr>wReserved = 0, scale = 0, sign = 128, Hi32 = 0, Lo64 = 5\<rparr>
     \<lparr>wReserved = 0, scale = 0, sign = 0, Hi32 = 0, Lo64 = 5\<rparr>
     \<lparr>wReserved = 0, scale = 0, sign = 0, Hi32 = 0, Lo64 = 0\<rparr>
   = Some (NOERROR, \<lparr>wReserved = 0, scale = 0, sign = 128, Hi32 = 0, Lo64 = 0\<rparr>) \<and>
   sign \<lparr>wReserved = 0, scale = 0, sign = 0, Hi32 = 0, Lo64 = 0\<rparr>
     \<noteq> sign \<lparr>wReserved = 0, scale = 0, sign = 128, Hi32 = 0, Lo64 = 0\<rparr>"
  by (simp add: DecimalAdd_def DecimalAddSub_def AlignedAdd_def DECIMAL_NEG_def
        SubBorrow64_def SubBorrow32_def)

theorem C8_add_commutes_unless_cancel:
  assumes "sign L = 0 \<or> sign L = DECIMAL_NEG" and "sign R = 0 \<or> sign R = DECIMAL_NEG"
  shows "DecimalAdd R L res =
         (if scale L = scale R \<and> sign L \<noteq> sign R \<and> Hi32 L = Hi32 R \<and> Lo64 L = Lo64 R
          then Some (NOERROR, res\<lparr>scale := scale R, sign := sign R, Lo64 := 0, Hi32 := 0\<rparr>)
          else DecimalAdd L R res)"
proof (cases "scale L = scale R")
  case False
  then have ne: "uint (scale L) \<noteq> uint (scale R)" by (simp add: word_uint_eq_iff)
  have sR: "sign R XOR ((sign L XOR sign R) AND DECIMAL_NEG) = sign L"
    and sL: "sign L XOR ((sign R XOR sign L) AND DECIMAL_NEG) = sign R"
    and sR': "sign R XOR ((sign R XOR sign L) AND DECIMAL_NEG) = sign L"
    and b: "(sign L XOR sign R) AND DECIMAL_NEG = (sign R XOR sign L) AND DECIMAL_NEG"
    using clean_sign_cases [OF assms] by auto
  have "DecimalAdd R L res = DecimalAdd L R res"
    using ne False
    by (simp add: DecimalAdd_unequal_scales [of L R] DecimalAdd_unequal_scales [of R L] sR sR' sL b)
  then show ?thesis using False by simp
next
  case True
  note eq = DecimalAdd_equal_scales [OF True, of res] DecimalAdd_equal_scales [OF True [symmetric], of res]
  show ?thesis
  proof (cases "sign L = sign R")
    case s: True
    then have b: "(sign R XOR sign L) AND DECIMAL_NEG = 0" "(sign L XOR sign R) AND DECIMAL_NEG = 0"
      by simp_all
    show ?thesis
      using True s by (simp add: eq b AlignedAdd_add_commute [of R L])
  next
    case s: False
    then have b: "(sign R XOR sign L) AND DECIMAL_NEG = DECIMAL_NEG"
        "(sign L XOR sign R) AND DECIMAL_NEG = DECIMAL_NEG"
      and x: "sign L XOR DECIMAL_NEG = sign R" "sign R XOR DECIMAL_NEG = sign L"
      using clean_sign_cases [OF assms] by auto
    show ?thesis
    proof (cases "Hi32 L = Hi32 R \<and> Lo64 L = Lo64 R")
      case c: True
      then show ?thesis
        using True s by (simp add: eq b AlignedAdd_sub_cancel)
    next
      case c: False
      then have "Hi32 L \<noteq> Hi32 R \<or> Lo64 L \<noteq> Lo64 R" by simp
      from AlignedAdd_sub_swap [OF this x, where res = res and s = "scale L"]
      have e: "DecimalAdd R L res = DecimalAdd L R res" using True by (simp add: eq b)
      have "\<not> (scale L = scale R \<and> sign L \<noteq> sign R \<and> Hi32 L = Hi32 R \<and> Lo64 L = Lo64 R)"
        using c by simp
      then show ?thesis using e by (simp only: if_False)
    qed
  qed
qed

theorem C8_add_commutes_unless_cancel_witness:
  "(sign \<lparr>wReserved = 0, scale = 1, sign = 0, Hi32 = 0, Lo64 = 10\<rparr> = 0 \<or>
    sign \<lparr>wReserved = 0, scale = 1, sign = 0, Hi32 = 0, Lo64 = 10\<rparr> = DECIMAL_NEG) \<and>
   (sign \<lparr>wReserved = 0, scale = 2, sign = 128, Hi32 = 0, Lo64 = 200\<rparr> = 0 \<or>
    sign \<lparr>wReserved = 0, scale = 2, sign = 128, Hi32 = 0, Lo64 = 200\<rparr> = DECIMAL_NEG) \<and>
   DecimalAdd \<lparr>wReserved = 0, scale = 2, sign = 128, Hi32 = 0, Lo64 = 200\<rparr>
     \<lparr>wReserved = 0, scale = 1, sign = 0, Hi32 = 0, Lo64 = 10\<rparr>
     \<lparr>wReserved = 0, scale = 0, sign = 0, Hi32 = 0, Lo64 = 0\<rparr>
   = DecimalAdd \<lparr>wReserved = 0, scale = 1, sign = 0, Hi32 = 0, Lo64 = 10\<rparr>
       \<lparr>wReserved = 0, scale = 2, sign = 128, Hi32 = 0, Lo64 = 200\<rparr>
       \<lparr>wReserved = 0, scale = 0, sign = 0, Hi32 = 0, Lo64 = 0\<rparr>"
  using C8_add_commutes_unless_cancel
    [of "\<lparr>wReserved = 0, scale = 1, sign = 0, Hi32 = 0, Lo64 = 10\<rparr>"
        "\<lparr>wReserved = 0, scale = 2, sign = 128, Hi32 = 0, Lo64 = 200\<rparr>"
        "\<lparr>wReserved = 0, scale = 0, sign = 0, Hi32 = 0, Lo64 = 0\<rparr>"]
  by (simp add: DECIMAL_NEG_def)

subsection \<open>The final rounding of ScaleResult\<close>

text \<open>
  C2. One pass of the loop of \<^verbatim>\<open>ScaleResult\<close> that reaches the rounding:
  \<^verbatim>\<open>ReduceScale\<close> has divided by \<open>d\<close> and left the remainder \<open>r\<close>, no more
  scaling is planned and the quotient fits in 96 bits. The divisor is an even power of ten,
  so \<open>d/2\<close> is exact. The quotient is incremented exactly when \<open>r > d/2\<close>, or
  \<open>r = d/2\<close> and the quotient is odd or an earlier remainder was not zero; the value
  returned is the scale, or -1 when the scale is below 0. When the increment carries out of
  96 bits the loop goes on with the value \<open>2^96\<close>, the scale decremented and a division
  by ten planned; with \<^verbatim>\<open>iHiRes = 1\<close>, as the code asserts there, this next pass
  ends the loop with \<open>2^96 / 10\<close> rounded, and again -1 for a scale below 0.
\<close>

theorem C2_ScaleResult_final_rounding:
  assumes rs: "ReduceScale rgullRes iHiRes iNewScale = (r, b0 # b1 # rest, iHi, d, n')"
    and pos: "0 < iNewScale" and last: "n' \<le> 0" and fits: "iHi \<le> 1" "hi32 b1 = 0"
  shows "even (unat d) \<and>
    ScaleResult_loop rgullRes iHiRes iScale iNewScale ulSticky ulRemainder =
      (if rounds_up (unat d) (unat r) (val96 (b0 # b1 # rest)) ((ulSticky OR ulRemainder) \<noteq> 0)
       then
         (if val96 (b0 # b1 # rest) + 1 < 2 ^ 96
          then Some (if iScale < 0 then - 1 else iScale, snd (Add96By32_u64 (b0 # b1 # rest) 1))
          else ScaleResult_loop (0 # 0x100000000 # rest) iHi (iScale - 1) 1 0 0)
       else Some (if iScale < 0 then - 1 else iScale, b0 # b1 # rest)) \<and>
    (val96 (b0 # b1 # rest) + 1 < 2 ^ 96 \<longrightarrow>
       val96 (snd (Add96By32_u64 (b0 # b1 # rest) 1)) = val96 (b0 # b1 # rest) + 1) \<and>
    ScaleResult_loop (0 # 0x100000000 # rest) 1 (iScale - 1) 1 0 0
      = Some (if iScale - 1 < 0 then - 1 else iScale - 1,
              0x999999999999999A # 0x19999999 # rest) \<and>
    val96 (0x999999999999999A # 0x19999999 # rest) = 7922816251426433759354395034"
proof -
  have "unat d = 10 ^ nat (min iNewScale 9)" using ReduceScale_ulDen_even [OF rs pos] .
  moreover have "nat (min iNewScale 9) = Suc (nat (min iNewScale 9) - 1)" using pos by simp
  ultimately have "unat d = 10 * 10 ^ (nat (min iNewScale 9) - 1)"
    by (metis power_Suc)
  then have ev: "even (unat d)" by simp
  note ru = ScaleResult_roundup_iff [OF ev, of r b0 b1 rest "ulSticky OR ulRemainder"]
  have c: "\<not> 0 < n'" "\<not> (1 < iHi \<or> hi32 ((b0 # b1 # rest) ! 1) \<noteq> 0)"
    using last fits by simp_all
  have body: "ScaleResult_loop rgullRes iHiRes iScale iNewScale ulSticky ulRemainder =
    (if ScaleResult_roundup (drop_bit 1 d) r (b0 # b1 # rest) (ulSticky OR ulRemainder) then
       (if fst (Add96By32_u64 (b0 # b1 # rest) 1) then
          ScaleResult_loop
            ((snd (Add96By32_u64 (b0 # b1 # rest) 1))
               [1 := set_hi32 (snd (Add96By32_u64 (b0 # b1 # rest) 1) ! 1) 1])
            iHi (iScale - 1) 1 0 0
        else if iScale < 0 then Some (- 1, snd (Add96By32_u64 (b0 # b1 # rest) 1))
        else Some (iScale, snd (Add96By32_u64 (b0 # b1 # rest) 1)))
     else if iScale < 0 then Some (- 1, b0 # b1 # rest)
     else Some (iScale, b0 # b1 # rest))"
    by (subst ScaleResult_loop.simps)
       (simp only: Let_def rs prod.case c if_False case_prod_beta fst_conv snd_conv)
  have main: "ScaleResult_loop rgullRes iHiRes iScale iNewScale ulSticky ulRemainder =
      (if rounds_up (unat d) (unat r) (val96 (b0 # b1 # rest)) ((ulSticky OR ulRemainder) \<noteq> 0)
       then
         (if val96 (b0 # b1 # rest) + 1 < 2 ^ 96
          then Some (if iScale < 0 then - 1 else iScale, snd (Add96By32_u64 (b0 # b1 # rest) 1))
          else ScaleResult_loop (0 # 0x100000000 # rest) iHi (iScale - 1) 1 0 0)
       else Some (if iScale < 0 then - 1 else iScale, b0 # b1 # rest))"
  proof (cases "val96 (b0 # b1 # rest) + 1 < 2 ^ 96")
    case True
    then show ?thesis
      unfolding body ru by (simp add: Add96By32_u64_carry)
  next
    case False
    have "(snd (Add96By32_u64 (b0 # b1 # rest) 1))
               [1 := set_hi32 (snd (Add96By32_u64 (b0 # b1 # rest) 1) ! 1) 1]
          = 0 # 0x100000000 # rest"
      by (simp add: Add96By32_u64_carry_buffer [OF False fits(2)] set_hi32_def make64_def
            low32_def)
    then show ?thesis
      unfolding body ru using False by (simp add: Add96By32_u64_carry)
  qed
  have v: "val96 (0x999999999999999A # 0x19999999 # rest) = 7922816251426433759354395034"
    by (simp add: val96_def low32_def)
  show ?thesis
    using ev main Add96By32_u64_no_carry [of b0 b1 rest]
      ScaleResult_loop_after_carry [of rest "iScale - 1"] v
    by blast
qed

theorem C2_ScaleResult_final_rounding_witness:
  "ReduceScale [15, 0, 0] 0 1 = (5, [1, 0, 0], 0, 10, - 8) \<and>
   rounds_up (unat (10 :: u32)) (unat (5 :: u32)) (val96 [1, 0, 0]) ((0 OR 0) \<noteq> (0 :: u32)) \<and>
   val96 [1, 0, 0] + 1 < 2 ^ 96 \<and>
   ScaleResult_loop [15, 0, 0] 0 3 1 0 0 = Some (3, [2, 0, 0]) \<and>
   val96 [2, 0, 0] = val96 [1, 0, 0] + 1"
  using C2_ScaleResult_final_rounding
    [where rgullRes = "[15, 0, 0]" and iHiRes = 0 and iNewScale = 1 and r = 5 and ?b0.0 = 1
       and ?b1.0 = 0 and rest = "[0]" and iHi = 0 and d = 10 and n' = "- 8" and iScale = 3
       and ulSticky = 0 and ulRemainder = 0]
    ReduceScale_example
  by (simp add: rounds_up_def val96_def low32_def hi32_def Add96By32_u64_def AddCarry64_def
        AddCarry32_def set_low32_def make64_def Let_def)

end
